theory Spec2Isabelle
  imports Main "HOL-Library.Word" "HOL-Library.Monad_Syntax"
begin

unbundle bit_operations_syntax

section \<open>Memory\<close>

text \<open>
  The code of \<^verbatim>\<open>h235crypto.cxx\<close> works on \<^verbatim>\<open>unsigned char\<close> arrays through
  pointers. An array is a list of bytes, a pointer into it is the array together with an
  offset, and every access checks its range: \<open>None\<close> stands for an access outside the
  array (or through a null pointer), where C defines no result.
\<close>

type_synonym byte = "8 word"
type_synonym bytes = "byte list"

definition mem_read :: "bytes \<Rightarrow> int \<Rightarrow> int \<Rightarrow> bytes option" where
  "mem_read m off n =
     (if 0 \<le> off \<and> 0 \<le> n \<and> off + n \<le> int (length m)
      then Some (take (nat n) (drop (nat off) m)) else None)"

definition mem_write :: "bytes \<Rightarrow> int \<Rightarrow> bytes \<Rightarrow> bytes option" where
  "mem_write m off xs =
     (if 0 \<le> off \<and> off + int (length xs) \<le> int (length m)
      then Some (take (nat off) m @ xs @ drop (nat off + length xs) m) else None)"

text \<open>\<^verbatim>\<open>memcpy(dst + doff, src + soff, n)\<close> and \<^verbatim>\<open>memset(dst + doff, v, n)\<close>.\<close>

definition memcpy :: "bytes \<Rightarrow> int \<Rightarrow> bytes \<Rightarrow> int \<Rightarrow> int \<Rightarrow> bytes option" where
  "memcpy dst doff src soff n =
     (case mem_read src soff n of None \<Rightarrow> None | Some xs \<Rightarrow> mem_write dst doff xs)"

definition memset :: "bytes \<Rightarrow> int \<Rightarrow> byte \<Rightarrow> int \<Rightarrow> bytes option" where
  "memset dst doff v n =
     (if n < 0 then None else mem_write dst doff (replicate (nat n) v))"

section \<open>The IV builder\<close>

definition IV_SEQUENCE_LEN :: nat where
  "IV_SEQUENCE_LEN = 6"

text \<open>
  The loop \<^verbatim>\<open>for (i = 0; i < ivLen / IV_SEQUENCE_LEN; i++)\<close> of \<^verbatim>\<open>SetIV\<close>, from
  the counter \<open>i\<close> on.
\<close>

function SetIV_loop :: "bytes \<Rightarrow> bytes \<Rightarrow> nat \<Rightarrow> nat \<Rightarrow> bytes option" where
  "SetIV_loop iv ivSequence ivLen i =
     (if i < ivLen div IV_SEQUENCE_LEN then
        (case memcpy iv (int (i * IV_SEQUENCE_LEN)) ivSequence 0 (int IV_SEQUENCE_LEN) of
           None \<Rightarrow> None
         | Some iv' \<Rightarrow> SetIV_loop iv' ivSequence ivLen (i + 1))
      else Some iv)"
  by pat_completeness auto
termination
  by (relation "measure (\<lambda>(iv, ivSequence, ivLen, i). ivLen div IV_SEQUENCE_LEN - i)") auto

declare SetIV_loop.simps [simp del]

text \<open>
  \<^verbatim>\<open>SetIV(iv, ivSequence, ivLen)\<close>: the pointer \<^verbatim>\<open>ivSequence\<close> may be null
  (\<open>None\<close>); otherwise it is the array it points to.
\<close>

definition SetIV :: "bytes \<Rightarrow> bytes option \<Rightarrow> nat \<Rightarrow> bytes option" where
  "SetIV iv ivSequence ivLen =
     (case ivSequence of
        Some s \<Rightarrow>
          (case SetIV_loop iv s ivLen 0 of
             None \<Rightarrow> None
           | Some iv' \<Rightarrow>
               if ivLen mod IV_SEQUENCE_LEN > 0
               then memcpy iv' (int ivLen - int (ivLen mod IV_SEQUENCE_LEN)) s 0
                      (int (ivLen mod IV_SEQUENCE_LEN))
               else Some iv')
      | None \<Rightarrow> memset iv 0 0 (int ivLen))"

section \<open>The platform: block primitive, build option, random source\<close>

text \<open>
  Modelled from the spec: the AES block function, the build option that enables the
  192 and 256 bit variants and the random generator are not part of the source file.
  They are parameters of the model: \<open>encrypt_block k b\<close> and \<open>decrypt_block k b\<close>
  are the block cipher under the key \<open>k\<close> on one block \<open>b\<close>,
  \<open>H323_H235_AES256\<close> says whether the code between
  \<^verbatim>\<open>#ifdef H323_H235_AES256\<close> and \<^verbatim>\<open>#endif\<close> is compiled, and
  \<open>RAND_source i\<close> is the \<open>i\<close>-th byte the random generator hands out.
\<close>

record platform =
  encrypt_block :: "bytes \<Rightarrow> bytes \<Rightarrow> bytes"
  decrypt_block :: "bytes \<Rightarrow> bytes \<Rightarrow> bytes"
  H323_H235_AES256 :: bool
  RAND_source :: "nat \<Rightarrow> byte"

text \<open>
  Modelled from the spec: the header that defines the algorithm identifiers is not part
  of the source; the spec names them "AES-128", "AES-192" and "AES-256". Only their being
  three different strings matters.
\<close>

definition ID_AES128 :: string where
  "ID_AES128 = ''AES-128''"

definition ID_AES192 :: string where
  "ID_AES192 = ''AES-192''"

definition ID_AES256 :: string where
  "ID_AES256 = ''AES-256''"

section \<open>The cipher context of the library\<close>

text \<open>
  Modelled from the spec: the cipher context and the \<^verbatim>\<open>EVP_\<close> routines belong to the
  OpenSSL library, which the source file calls and which is not part of the repository.
  The spec describes them as an adapter over AES in CBC mode with a block of 16 bytes, an
  IV of 16 bytes and keys of 16, 24 and 32 bytes, with a streaming update that emits
  complete blocks only and a final step that adds the padding. The context holds the
  cipher, the direction, the key, the chaining value, the IV it was initialised with, the
  no-padding flag and the staging block of the library's own update and final routines.
\<close>

datatype EVP_CIPHER = EVP_aes_128_cbc | EVP_aes_192_cbc | EVP_aes_256_cbc

datatype EVP_CIPH_MODE = EVP_CIPH_ECB_MODE | EVP_CIPH_CBC_MODE

fun EVP_CIPHER_key_length :: "EVP_CIPHER \<Rightarrow> int" where
  "EVP_CIPHER_key_length EVP_aes_128_cbc = 16"
| "EVP_CIPHER_key_length EVP_aes_192_cbc = 24"
| "EVP_CIPHER_key_length EVP_aes_256_cbc = 32"

definition EVP_CIPHER_block_size :: "EVP_CIPHER \<Rightarrow> int" where
  "EVP_CIPHER_block_size c = 16"

definition EVP_CIPHER_iv_length :: "EVP_CIPHER \<Rightarrow> int" where
  "EVP_CIPHER_iv_length c = 16"

definition EVP_CIPHER_mode :: "EVP_CIPHER \<Rightarrow> EVP_CIPH_MODE" where
  "EVP_CIPHER_mode c = EVP_CIPH_CBC_MODE"

definition EVP_MAX_BLOCK_LENGTH :: nat where
  "EVP_MAX_BLOCK_LENGTH = 32"

definition EVP_MAX_IV_LENGTH :: nat where
  "EVP_MAX_IV_LENGTH = 16"

record EVP_CIPHER_CTX =
  ctx_cipher :: "EVP_CIPHER option"
  ctx_encrypt :: bool
  ctx_key :: bytes
  ctx_oiv :: bytes
  ctx_iv :: bytes
  ctx_no_padding :: bool
  ctx_buf :: bytes
  ctx_buf_len :: int

text \<open>A context as \<^verbatim>\<open>EVP_CIPHER_CTX_new\<close> and \<^verbatim>\<open>EVP_CIPHER_CTX_reset\<close> leave it.\<close>

definition EVP_CIPHER_CTX_new :: EVP_CIPHER_CTX where
  "EVP_CIPHER_CTX_new =
     \<lparr>ctx_cipher = None, ctx_encrypt = False, ctx_key = [],
      ctx_oiv = replicate EVP_MAX_IV_LENGTH 0, ctx_iv = replicate EVP_MAX_IV_LENGTH 0,
      ctx_no_padding = False, ctx_buf = replicate EVP_MAX_BLOCK_LENGTH 0, ctx_buf_len = 0\<rparr>"

definition EVP_CIPHER_CTX_reset :: "EVP_CIPHER_CTX \<Rightarrow> EVP_CIPHER_CTX" where
  "EVP_CIPHER_CTX_reset c = EVP_CIPHER_CTX_new"

definition EVP_CIPHER_CTX_block_size :: "EVP_CIPHER_CTX \<Rightarrow> int option" where
  "EVP_CIPHER_CTX_block_size c = map_option EVP_CIPHER_block_size (ctx_cipher c)"

definition EVP_CIPHER_CTX_iv_length :: "EVP_CIPHER_CTX \<Rightarrow> int option" where
  "EVP_CIPHER_CTX_iv_length c = map_option EVP_CIPHER_iv_length (ctx_cipher c)"

definition EVP_CIPHER_CTX_mode :: "EVP_CIPHER_CTX \<Rightarrow> EVP_CIPH_MODE option" where
  "EVP_CIPHER_CTX_mode c = map_option EVP_CIPHER_mode (ctx_cipher c)"

definition EVP_CIPHER_CTX_set_padding :: "EVP_CIPHER_CTX \<Rightarrow> bool \<Rightarrow> EVP_CIPHER_CTX" where
  "EVP_CIPHER_CTX_set_padding c pad = c\<lparr>ctx_no_padding := \<not> pad\<rparr>"

text \<open>
  \<^verbatim>\<open>EVP_EncryptInit_ex\<close> and \<^verbatim>\<open>EVP_DecryptInit_ex\<close> (the flag \<open>enc\<close> tells
  which): the cipher, the key and the IV are each optional. A new cipher clears the flags.
  Without a cipher in the context the call fails and changes nothing (the source file
  ignores the return value). In CBC mode a given IV becomes the original IV, and the
  chaining value restarts from the original IV. A given key is read in the cipher's key
  length. The staging block is emptied.
\<close>

definition EVP_CipherInit_ex ::
  "EVP_CIPHER_CTX \<Rightarrow> EVP_CIPHER option \<Rightarrow> bytes option \<Rightarrow> bytes option \<Rightarrow> bool
     \<Rightarrow> EVP_CIPHER_CTX option" where
  "EVP_CipherInit_ex c cipher key iv enc =
     (let c1 = (case cipher of None \<Rightarrow> c
                | Some ci \<Rightarrow> c\<lparr>ctx_cipher := Some ci, ctx_no_padding := False\<rparr>)
      in case ctx_cipher c1 of
           None \<Rightarrow> Some c1
         | Some ci \<Rightarrow> do {
             oiv \<leftarrow> (case iv of None \<Rightarrow> Some (ctx_oiv c1)
                     | Some v \<Rightarrow> mem_read v 0 (EVP_CIPHER_iv_length ci));
             k \<leftarrow> (case key of None \<Rightarrow> Some (ctx_key c1)
                   | Some kk \<Rightarrow> mem_read kk 0 (EVP_CIPHER_key_length ci));
             Some (c1\<lparr>ctx_encrypt := enc, ctx_key := k, ctx_oiv := oiv, ctx_iv := oiv,
                      ctx_buf_len := 0\<rparr>)
           })"

definition xor_bytes :: "bytes \<Rightarrow> bytes \<Rightarrow> bytes" where
  "xor_bytes a b = map2 (XOR) a b"

text \<open>
  CBC over \<open>n\<close> blocks of 16 bytes, from the chaining value \<open>v\<close>: the output and the
  new chaining value (the last ciphertext block).
\<close>

primrec cbc_encrypt :: "(bytes \<Rightarrow> bytes) \<Rightarrow> bytes \<Rightarrow> bytes \<Rightarrow> nat \<Rightarrow> bytes \<times> bytes" where
  "cbc_encrypt E v d 0 = ([], v)"
| "cbc_encrypt E v d (Suc n) =
     (let c = E (xor_bytes (take 16 d) v);
          r = cbc_encrypt E c (drop 16 d) n
      in (c @ fst r, snd r))"

primrec cbc_decrypt :: "(bytes \<Rightarrow> bytes) \<Rightarrow> bytes \<Rightarrow> bytes \<Rightarrow> nat \<Rightarrow> bytes \<times> bytes" where
  "cbc_decrypt D v d 0 = ([], v)"
| "cbc_decrypt D v d (Suc n) =
     (let c = take 16 d;
          r = cbc_decrypt D c (drop 16 d) n
      in (xor_bytes (D c) v @ fst r, snd r))"

definition ctx_cbc :: "platform \<Rightarrow> EVP_CIPHER_CTX \<Rightarrow> bytes \<Rightarrow> nat \<Rightarrow> bytes \<times> bytes" where
  "ctx_cbc env c d n =
     (if ctx_encrypt c then cbc_encrypt (encrypt_block env (ctx_key c)) (ctx_iv c) d n
      else cbc_decrypt (decrypt_block env (ctx_key c)) (ctx_iv c) d n)"

text \<open>
  \<^verbatim>\<open>EVP_Cipher(ctx, out + op, in + ip, inl)\<close>: the cipher in CBC mode over \<open>inl\<close>
  bytes, a whole number of blocks; the chaining value moves on. The result is the return
  value (1: the AES routine of the library versions the file is written for does not
  fail), the context and the output array. The library says nothing about a length that
  is not a multiple of the block size; the model gives \<open>None\<close> there.
\<close>

definition EVP_Cipher ::
  "platform \<Rightarrow> EVP_CIPHER_CTX \<Rightarrow> bytes \<Rightarrow> int \<Rightarrow> bytes \<Rightarrow> int \<Rightarrow> int
     \<Rightarrow> (int \<times> EVP_CIPHER_CTX \<times> bytes) option" where
  "EVP_Cipher env c out op inp ip inl =
     (case ctx_cipher c of
        None \<Rightarrow> None
      | Some ci \<Rightarrow> do {
          d \<leftarrow> mem_read inp ip inl;
          if inl mod EVP_CIPHER_block_size ci \<noteq> 0 then None
          else do {
            let r = ctx_cbc env c d (nat (inl div EVP_CIPHER_block_size ci));
            out' \<leftarrow> mem_write out op (fst r);
            Some (1, c\<lparr>ctx_iv := snd r\<rparr>, out')
          }
        })"

text \<open>
  \<^verbatim>\<open>EVP_EncryptUpdate\<close> of the library, on the staging block of the context. The
  source file says that its own \<^verbatim>\<open>EncryptUpdate\<close> is based on this routine, and the
  spec describes both as the same standard update.
\<close>

definition EVP_EncryptUpdate ::
  "platform \<Rightarrow> EVP_CIPHER_CTX \<Rightarrow> bytes \<Rightarrow> int \<Rightarrow> bytes \<Rightarrow> int \<Rightarrow> int
     \<Rightarrow> (int \<times> EVP_CIPHER_CTX \<times> bytes \<times> int) option" where
  "EVP_EncryptUpdate env c out op inp ip inl =
     (if inl \<le> 0 then Some (if inl = 0 then 1 else 0, c, out, 0)
      else do {
        bl \<leftarrow> EVP_CIPHER_CTX_block_size c;
        if ctx_buf_len c = 0 \<and> inl AND (bl - 1) = 0 then do {
          (r, c1, out1) \<leftarrow> EVP_Cipher env c out op inp ip inl;
          if r = 0 then Some (0, c1, out1, 0) else Some (1, c1, out1, inl)
        } else do {
          let i = ctx_buf_len c;
          if i \<noteq> 0 \<and> bl - i > inl then do {
            b \<leftarrow> memcpy (ctx_buf c) i inp ip inl;
            Some (1, c\<lparr>ctx_buf := b, ctx_buf_len := ctx_buf_len c + inl\<rparr>, out, 0)
          } else do {
            (r, c1, out1, op1, outl1, ip1, inl1) \<leftarrow>
              (if i \<noteq> 0 then do {
                 let j = bl - i;
                 b \<leftarrow> memcpy (ctx_buf c) i inp ip j;
                 (r, c1, out1) \<leftarrow> EVP_Cipher env (c\<lparr>ctx_buf := b\<rparr>) out op b 0 bl;
                 Some (r, c1, out1, op + bl, bl, ip + j, inl - j)
               } else Some (1, c, out, op, 0, ip, inl));
            if r = 0 then Some (0, c1, out1, 0)
            else do {
              let i2 = inl1 AND (bl - 1);
              let inl2 = inl1 - i2;
              (r2, c2, out2, outl2) \<leftarrow>
                (if inl2 > 0 then do {
                   (r, c2, out2) \<leftarrow> EVP_Cipher env c1 out1 op1 inp ip1 inl2;
                   Some (r, c2, out2, outl1 + inl2)
                 } else Some (1, c1, out1, outl1));
              if r2 = 0 then Some (0, c2, out2, outl1)
              else do {
                b \<leftarrow> (if i2 \<noteq> 0 then memcpy (ctx_buf c2) 0 inp (ip1 + inl2) i2
                      else Some (ctx_buf c2));
                Some (1, c2\<lparr>ctx_buf := b, ctx_buf_len := i2\<rparr>, out2, outl2)
              }
            }
          }
        }
      })"

text \<open>
  \<^verbatim>\<open>EVP_EncryptFinal_ex\<close> of the library: without padding it fails when bytes are
  staged and writes nothing otherwise; with padding it fills the staging block with the
  number of missing bytes and enciphers it. \<open>outl0\<close> is what \<^verbatim>\<open>*outl\<close> holds before
  the call; a failing call leaves it.
\<close>

definition EVP_EncryptFinal_ex ::
  "platform \<Rightarrow> EVP_CIPHER_CTX \<Rightarrow> bytes \<Rightarrow> int \<Rightarrow> int
     \<Rightarrow> (int \<times> EVP_CIPHER_CTX \<times> bytes \<times> int) option" where
  "EVP_EncryptFinal_ex env c out op outl0 =
     do {
       b \<leftarrow> EVP_CIPHER_CTX_block_size c;
       if b = 1 then Some (1, c, out, 0)
       else if ctx_no_padding c then
         (if ctx_buf_len c \<noteq> 0 then Some (0, c, out, outl0) else Some (1, c, out, 0))
       else do {
         let n = b - ctx_buf_len c;
         padded \<leftarrow> memset (ctx_buf c) (ctx_buf_len c) (word_of_int n) n;
         (r, c1, out1) \<leftarrow> EVP_Cipher env (c\<lparr>ctx_buf := padded\<rparr>) out op padded 0 b;
         Some (r, c1, out1, if r \<noteq> 0 then b else outl0)
       }
     }"

section \<open>The helper: \<^verbatim>\<open>H235CryptoHelper\<close>\<close>

text \<open>
  The two staging arrays have \<^verbatim>\<open>EVP_MAX_BLOCK_LENGTH\<close> bytes. Every routine returns
  its return value, the helper, the context, the output array and \<^verbatim>\<open>*outl\<close>. An
  \<^verbatim>\<open>OPENSSL_assert\<close> that fails ends the program: \<open>None\<close>. Lengths are C
  \<^verbatim>\<open>int\<close>s, far below the range where they could overflow, and are integers here.
\<close>

record H235CryptoHelper =
  buf :: bytes
  final_buf :: bytes
  buf_len :: int
  final_used :: int

type_synonym helper_result = "int \<times> H235CryptoHelper \<times> EVP_CIPHER_CTX \<times> bytes \<times> int"

definition Reset :: "H235CryptoHelper \<Rightarrow> H235CryptoHelper" where
  "Reset h = h\<lparr>buf_len := 0, final_used := 0\<rparr>"

definition new_H235CryptoHelper :: H235CryptoHelper where
  "new_H235CryptoHelper =
     Reset \<lparr>buf = replicate EVP_MAX_BLOCK_LENGTH 0, final_buf = replicate EVP_MAX_BLOCK_LENGTH 0,
            buf_len = 0, final_used = 0\<rparr>"

text \<open>
  \<^verbatim>\<open>EncryptUpdateCTS\<close> from the comment "we already know buf_len + inl must be > bl"
  on: \<open>op\<close> and \<open>outl\<close> are where \<^verbatim>\<open>out\<close> and \<^verbatim>\<open>*outl\<close> stand then.
\<close>

definition EncryptUpdateCTS_fill ::
  "platform \<Rightarrow> H235CryptoHelper \<Rightarrow> EVP_CIPHER_CTX \<Rightarrow> bytes \<Rightarrow> int \<Rightarrow> int \<Rightarrow> bytes \<Rightarrow> int \<Rightarrow> int
     \<Rightarrow> int \<Rightarrow> helper_result option" where
  "EncryptUpdateCTS_fill env h c out op outl inp ip inl bl =
     do {
       b \<leftarrow> memcpy (buf h) (buf_len h) inp ip (bl - buf_len h);
       let ip1 = ip + (bl - buf_len h);
       let inl1 = inl - (bl - buf_len h);
       let h1 = h\<lparr>buf := b, buf_len := bl\<rparr>;
       if inl1 \<le> bl then do {
         fb \<leftarrow> memcpy (final_buf h1) 0 (buf h1) 0 bl;
         b2 \<leftarrow> memcpy (buf h1) 0 inp ip1 inl1;
         Some (1, h1\<lparr>final_buf := fb, final_used := 1, buf := b2, buf_len := inl1\<rparr>, c, out, outl)
       } else do {
         (r, c1, out1) \<leftarrow> EVP_Cipher env c out op (buf h1) 0 bl;
         if r = 0 then Some (0, h1, c1, out1, outl)
         else do {
           let op1 = op + bl;
           let outl1 = outl + bl;
           let leftover = inl1 AND (bl - 1);
           (h2, inl2) \<leftarrow>
             (if leftover \<noteq> 0 then do {
                let inl2 = inl1 - (bl + leftover);
                b2 \<leftarrow> memcpy (buf h1) 0 inp (ip1 + (inl2 + bl)) leftover;
                Some (h1\<lparr>buf := b2, buf_len := leftover\<rparr>, inl2)
              } else do {
                let inl2 = inl1 - 2 * bl;
                b2 \<leftarrow> memcpy (buf h1) 0 inp (ip1 + (inl2 + bl)) bl;
                Some (h1\<lparr>buf := b2, buf_len := bl\<rparr>, inl2)
              });
           fb \<leftarrow> memcpy (final_buf h2) 0 inp (ip1 + inl2) bl;
           let h3 = h2\<lparr>final_buf := fb, final_used := 1\<rparr>;
           (r2, c2, out2) \<leftarrow> EVP_Cipher env c1 out1 op1 inp ip1 inl2;
           if r2 = 0 then Some (0, h3, c2, out2, outl1)
           else Some (1, h3, c2, out2, outl1 + inl2)
         }
       }
     }"

definition EncryptUpdateCTS ::
  "platform \<Rightarrow> H235CryptoHelper \<Rightarrow> EVP_CIPHER_CTX \<Rightarrow> bytes \<Rightarrow> int \<Rightarrow> bytes \<Rightarrow> int \<Rightarrow> int
     \<Rightarrow> helper_result option" where
  "EncryptUpdateCTS env h c out op inp ip inl =
     do {
       bl \<leftarrow> EVP_CIPHER_CTX_block_size c;
       if \<not> bl \<le> int (length (buf h)) then None
       else if inl \<le> 0 then Some (if inl = 0 then 1 else 0, h, c, out, 0)
       else if buf_len h + inl \<le> bl then do {
         b \<leftarrow> memcpy (buf h) (buf_len h) inp ip inl;
         Some (1, h\<lparr>buf := b, buf_len := buf_len h + inl\<rparr>, c, out, 0)
       }
       else if final_used h \<noteq> 0 then do {
         (r, c1, out1) \<leftarrow> EVP_Cipher env c out op (final_buf h) 0 bl;
         if r = 0 then Some (0, h, c1, out1, 0)
         else EncryptUpdateCTS_fill env (h\<lparr>final_used := 0\<rparr>) c1 out1 (op + bl) bl inp ip inl bl
       }
       else EncryptUpdateCTS_fill env h c out op 0 inp ip inl bl
     }"

definition EncryptFinalCTS ::
  "platform \<Rightarrow> H235CryptoHelper \<Rightarrow> EVP_CIPHER_CTX \<Rightarrow> bytes \<Rightarrow> int \<Rightarrow> helper_result option" where
  "EncryptFinalCTS env h c out op =
     do {
       let tmp = replicate EVP_MAX_BLOCK_LENGTH 0;
       bl \<leftarrow> EVP_CIPHER_CTX_block_size c;
       if final_used h = 0 then Some (0, h, c, out, 0)
       else if buf_len h = 0 then Some (0, h, c, out, 0)
       else do {
         let leftover = buf_len h;
         mode \<leftarrow> EVP_CIPHER_CTX_mode c;
         case mode of
           EVP_CIPH_ECB_MODE \<Rightarrow> do {
             (r, c1, tmp1) \<leftarrow> EVP_Cipher env c tmp 0 (final_buf h) 0 bl;
             if r = 0 then Some (0, h, c1, out, 0)
             else do {
               b \<leftarrow> memcpy (buf h) leftover tmp1 leftover (bl - leftover);
               (r2, c2, out2) \<leftarrow> EVP_Cipher env c1 out op b 0 bl;
               if r2 = 0 then Some (0, h\<lparr>buf := b\<rparr>, c2, out2, 0)
               else do {
                 out3 \<leftarrow> memcpy out2 (op + bl) tmp1 0 leftover;
                 Some (1, h\<lparr>buf := b\<rparr>, c2, out3, bl + leftover)
               }
             }
           }
         | EVP_CIPH_CBC_MODE \<Rightarrow> do {
             (r, c1, tmp1) \<leftarrow> EVP_Cipher env c tmp 0 (final_buf h) 0 bl;
             if r = 0 then Some (0, h, c1, out, 0)
             else do {
               b \<leftarrow> memset (buf h) leftover 0 (bl - leftover);
               (r2, c2, out2) \<leftarrow> EVP_Cipher env c1 out op b 0 bl;
               if r2 = 0 then Some (0, h\<lparr>buf := b\<rparr>, c2, out2, 0)
               else do {
                 out3 \<leftarrow> memcpy out2 (op + bl) tmp1 0 leftover;
                 Some (1, h\<lparr>buf := b\<rparr>, c2, out3, bl + leftover)
               }
             }
           }
       }
     }"

definition EncryptUpdate ::
  "platform \<Rightarrow> H235CryptoHelper \<Rightarrow> EVP_CIPHER_CTX \<Rightarrow> bytes \<Rightarrow> int \<Rightarrow> bytes \<Rightarrow> int \<Rightarrow> int
     \<Rightarrow> helper_result option" where
  "EncryptUpdate env h c out op inp ip inl =
     (if inl \<le> 0 then Some (if inl = 0 then 1 else 0, h, c, out, 0)
      else do {
        bl \<leftarrow> EVP_CIPHER_CTX_block_size c;
        if \<not> bl \<le> int (length (buf h)) then None
        else if buf_len h = 0 \<and> inl AND (bl - 1) = 0 then do {
          (r, c1, out1) \<leftarrow> EVP_Cipher env c out op inp ip inl;
          if r = 0 then Some (0, h, c1, out1, 0) else Some (1, h, c1, out1, inl)
        } else do {
          let i = buf_len h;
          if i \<noteq> 0 \<and> i + inl < bl then do {
            b \<leftarrow> memcpy (buf h) i inp ip inl;
            Some (1, h\<lparr>buf := b, buf_len := buf_len h + inl\<rparr>, c, out, 0)
          } else do {
            (r, h1, c1, out1, op1, outl1, ip1, inl1) \<leftarrow>
              (if i \<noteq> 0 then do {
                 let j = bl - i;
                 b \<leftarrow> memcpy (buf h) i inp ip j;
                 (r, c1, out1) \<leftarrow> EVP_Cipher env c out op b 0 bl;
                 Some (r, h\<lparr>buf := b\<rparr>, c1, out1, op + bl, if r = 0 then 0 else bl, ip + j, inl - j)
               } else Some (1, h, c, out, op, 0, ip, inl));
            if r = 0 then Some (0, h1, c1, out1, outl1)
            else do {
              let i2 = inl1 AND (bl - 1);
              let inl2 = inl1 - i2;
              (r2, c2, out2, outl2) \<leftarrow>
                (if inl2 > 0 then do {
                   (r, c2, out2) \<leftarrow> EVP_Cipher env c1 out1 op1 inp ip1 inl2;
                   Some (r, c2, out2, if r = 0 then outl1 else outl1 + inl2)
                 } else Some (1, c1, out1, outl1));
              if r2 = 0 then Some (0, h1, c2, out2, outl2)
              else do {
                b \<leftarrow> (if i2 \<noteq> 0 then memcpy (buf h1) 0 inp (ip1 + inl2) i2 else Some (buf h1));
                Some (1, h1\<lparr>buf := b, buf_len := i2\<rparr>, c2, out2, outl2)
              }
            }
          }
        }
      })"

definition DecryptUpdateCTS ::
  "platform \<Rightarrow> H235CryptoHelper \<Rightarrow> EVP_CIPHER_CTX \<Rightarrow> bytes \<Rightarrow> int \<Rightarrow> bytes \<Rightarrow> int \<Rightarrow> int
     \<Rightarrow> helper_result option" where
  "DecryptUpdateCTS env h c out op inp ip inl = EncryptUpdateCTS env h c out op inp ip inl"

text \<open>The loops \<^verbatim>\<open>for (i = 0; i < bl; i++) a[i] = a[i] ^ b[i]\<close>, on \<open>a + ap\<close>.\<close>

definition xor_loop :: "bytes \<Rightarrow> int \<Rightarrow> bytes \<Rightarrow> int \<Rightarrow> bytes option" where
  "xor_loop a ap b bl =
     do {
       x \<leftarrow> mem_read a ap bl;
       y \<leftarrow> mem_read b 0 bl;
       mem_write a ap (xor_bytes x y)
     }"

definition DecryptFinalCTS ::
  "platform \<Rightarrow> H235CryptoHelper \<Rightarrow> EVP_CIPHER_CTX \<Rightarrow> bytes \<Rightarrow> int \<Rightarrow> helper_result option" where
  "DecryptFinalCTS env h c out op =
     do {
       let tmp = replicate EVP_MAX_BLOCK_LENGTH 0;
       bl \<leftarrow> EVP_CIPHER_CTX_block_size c;
       if final_used h = 0 then Some (0, h, c, out, 0)
       else if buf_len h = 0 then Some (0, h, c, out, 0)
       else do {
         let leftover = buf_len h;
         mode \<leftarrow> EVP_CIPHER_CTX_mode c;
         case mode of
           EVP_CIPH_ECB_MODE \<Rightarrow> do {
             (r, c1, tmp1) \<leftarrow> EVP_Cipher env c tmp 0 (final_buf h) 0 bl;
             if r = 0 then Some (0, h, c1, out, 0)
             else do {
               b \<leftarrow> memcpy (buf h) leftover tmp1 leftover (bl - leftover);
               (r2, c2, out2) \<leftarrow> EVP_Cipher env c1 out op b 0 bl;
               if r2 = 0 then Some (0, h\<lparr>buf := b\<rparr>, c2, out2, 0)
               else do {
                 out3 \<leftarrow> memcpy out2 (op + bl) tmp1 0 leftover;
                 Some (1, h\<lparr>buf := b\<rparr>, c2, out3, bl + leftover)
               }
             }
           }
         | EVP_CIPH_CBC_MODE \<Rightarrow> do {
             C_n_minus_2 \<leftarrow> memcpy (replicate EVP_MAX_BLOCK_LENGTH 0) 0 (ctx_iv c) 0 bl;
             b \<leftarrow> memset (buf h) leftover 0 (bl - leftover);
             (r, c1, tmp1) \<leftarrow> EVP_Cipher env c tmp 0 (final_buf h) 0 bl;
             if r = 0 then Some (0, h\<lparr>buf := b\<rparr>, c1, out, 0)
             else do {
               tmp2 \<leftarrow> xor_loop tmp1 0 C_n_minus_2 bl;
               tmp3 \<leftarrow> xor_loop tmp2 0 b bl;
               b2 \<leftarrow> memcpy b leftover tmp3 leftover (bl - leftover);
               (r2, c2, out2) \<leftarrow> EVP_Cipher env c1 out op b2 0 bl;
               if r2 = 0 then Some (0, h\<lparr>buf := b2\<rparr>, c2, out2, 0)
               else do {
                 out3 \<leftarrow> xor_loop out2 op (final_buf h) bl;
                 out4 \<leftarrow> xor_loop out3 op C_n_minus_2 bl;
                 out5 \<leftarrow> memcpy out4 (op + bl) tmp3 0 leftover;
                 Some (1, h\<lparr>buf := b2\<rparr>, c2, out5, bl + leftover)
               }
             }
           }
       }
     }"

definition DecryptUpdate ::
  "platform \<Rightarrow> H235CryptoHelper \<Rightarrow> EVP_CIPHER_CTX \<Rightarrow> bytes \<Rightarrow> int \<Rightarrow> bytes \<Rightarrow> int \<Rightarrow> int
     \<Rightarrow> helper_result option" where
  "DecryptUpdate env h c out op inp ip inl =
     (if inl \<le> 0 then Some (if inl = 0 then 1 else 0, h, c, out, 0)
      else if ctx_no_padding c then EncryptUpdate env h c out op inp ip inl
      else do {
        bl \<leftarrow> EVP_CIPHER_CTX_block_size c;
        if \<not> bl \<le> int (length (final_buf h)) then None
        else do {
          (out0, op0, fix_len) \<leftarrow>
            (if final_used h \<noteq> 0 then do {
               w \<leftarrow> memcpy out op (final_buf h) 0 bl;
               Some (w, op + bl, 1::int)
             } else Some (out, op, 0));
          (r, h1, c1, out1, outl1) \<leftarrow> EncryptUpdate env h c out0 op0 inp ip inl;
          if r = 0 then Some (0, h1, c1, out1, outl1)
          else do {
            (h2, outl2) \<leftarrow>
              (if bl > 1 \<and> buf_len h1 = 0 then do {
                 fb \<leftarrow> memcpy (final_buf h1) 0 out1 (op0 + (outl1 - bl)) bl;
                 Some (h1\<lparr>final_used := 1, final_buf := fb\<rparr>, outl1 - bl)
               } else Some (h1\<lparr>final_used := 0\<rparr>, outl1));
            Some (1, h2, c1, out1, if fix_len \<noteq> 0 then outl2 + bl else outl2)
          }
        }
      })"

text \<open>The read \<^verbatim>\<open>a[i]\<close> of one byte.\<close>

definition mem_byte :: "bytes \<Rightarrow> int \<Rightarrow> byte option" where
  "mem_byte a i = (if 0 \<le> i \<and> i < int (length a) then Some (a ! nat i) else None)"

definition DecryptFinalRelaxed ::
  "platform \<Rightarrow> H235CryptoHelper \<Rightarrow> EVP_CIPHER_CTX \<Rightarrow> bytes \<Rightarrow> int \<Rightarrow> helper_result option" where
  "DecryptFinalRelaxed env h c out op =
     (if ctx_no_padding c then
        (if buf_len h \<noteq> 0 then Some (0, h, c, out, 0) else Some (1, h, c, out, 0))
      else do {
        bl \<leftarrow> EVP_CIPHER_CTX_block_size c;
        if bl > 1 then
          (if buf_len h \<noteq> 0 \<or> final_used h = 0 then Some (0, h, c, out, 0)
           else if \<not> bl \<le> int (length (final_buf h)) then None
           else do {
             last_byte \<leftarrow> mem_byte (final_buf h) (bl - 1);
             let n = uint last_byte;
             if n = 0 \<or> n > bl then Some (0, h, c, out, 0)
             else do {
               out1 \<leftarrow> memcpy out op (final_buf h) 0 (bl - n);
               Some (1, h, c, out1, bl - n)
             }
           })
        else Some (1, h, c, out, 0)
      })"

section \<open>The engine: \<^verbatim>\<open>H235CryptoEngine\<close>\<close>

text \<open>
  The two contexts are pointers that are null until \<^verbatim>\<open>SetKey\<close> allocates them
  (\<open>None\<close>); an allocation does not fail in the model. \<^verbatim>\<open>m_iv\<close> is the array of
  \<^verbatim>\<open>EVP_MAX_IV_LENGTH\<close> bytes the in-place routines build the IV in.
\<close>

record H235CryptoEngine =
  m_encryptCtx :: "EVP_CIPHER_CTX option"
  m_decryptCtx :: "EVP_CIPHER_CTX option"
  m_encryptHelper :: H235CryptoHelper
  m_decryptHelper :: H235CryptoHelper
  m_algorithmOID :: string
  m_operationCnt :: nat
  m_initialised :: bool
  m_enc_blockSize :: int
  m_enc_ivLength :: int
  m_dec_blockSize :: int
  m_dec_ivLength :: int
  m_iv :: bytes

text \<open>The constructor \<^verbatim>\<open>H235CryptoEngine(algorithmOID)\<close>.\<close>

definition new_H235CryptoEngine :: "string \<Rightarrow> H235CryptoEngine" where
  "new_H235CryptoEngine algorithmOID =
     \<lparr>m_encryptCtx = None, m_decryptCtx = None,
      m_encryptHelper = new_H235CryptoHelper, m_decryptHelper = new_H235CryptoHelper,
      m_algorithmOID = algorithmOID, m_operationCnt = 0, m_initialised = False,
      m_enc_blockSize = 0, m_enc_ivLength = 0, m_dec_blockSize = 0, m_dec_ivLength = 0,
      m_iv = replicate EVP_MAX_IV_LENGTH 0\<rparr>"

text \<open>The choice of the cipher at the head of \<^verbatim>\<open>SetKey\<close>; \<open>None\<close> is the last branch.\<close>

definition SetKey_cipher :: "platform \<Rightarrow> string \<Rightarrow> EVP_CIPHER option" where
  "SetKey_cipher env oid =
     (if oid = ID_AES128 then Some EVP_aes_128_cbc
      else if H323_H235_AES256 env \<and> oid = ID_AES192 then Some EVP_aes_192_cbc
      else if H323_H235_AES256 env \<and> oid = ID_AES256 then Some EVP_aes_256_cbc
      else None)"

definition SetKey :: "platform \<Rightarrow> bytes \<Rightarrow> H235CryptoEngine \<Rightarrow> H235CryptoEngine option" where
  "SetKey env key e =
     (case SetKey_cipher env (m_algorithmOID e) of
        None \<Rightarrow> Some e
      | Some cipher \<Rightarrow> do {
          let e1 = e\<lparr>m_initialised := False\<rparr>;
          let ec = (case m_encryptCtx e1 of None \<Rightarrow> EVP_CIPHER_CTX_new
                    | Some c \<Rightarrow> EVP_CIPHER_CTX_reset c);
          ec1 \<leftarrow> EVP_CipherInit_ex ec (Some cipher) (Some key) None True;
          ebs \<leftarrow> EVP_CIPHER_CTX_block_size ec1;
          eivl \<leftarrow> EVP_CIPHER_CTX_iv_length ec1;
          let e2 = e1\<lparr>m_encryptCtx := Some ec1, m_enc_blockSize := ebs, m_enc_ivLength := eivl,
                       m_encryptHelper := Reset (m_encryptHelper e1)\<rparr>;
          let dc = (case m_decryptCtx e2 of None \<Rightarrow> EVP_CIPHER_CTX_new
                    | Some c \<Rightarrow> EVP_CIPHER_CTX_reset c);
          dc1 \<leftarrow> EVP_CipherInit_ex dc (Some cipher) (Some key) None False;
          dbs \<leftarrow> EVP_CIPHER_CTX_block_size dc1;
          divl \<leftarrow> EVP_CIPHER_CTX_iv_length dc1;
          let e3 = e2\<lparr>m_decryptCtx := Some dc1, m_dec_blockSize := dbs, m_dec_ivLength := divl,
                       m_decryptHelper := Reset (m_decryptHelper e2)\<rparr>;
          Some (e3\<lparr>m_operationCnt := 0, m_initialised := True\<rparr>)
        })"

text \<open>
  \<^verbatim>\<open>PBYTEArray(n)\<close> is an array of \<open>n\<close> zero bytes; \<^verbatim>\<open>SetSize(n)\<close> cuts an
  array or extends it with zero bytes.
\<close>

definition PBYTEArray :: "int \<Rightarrow> bytes" where
  "PBYTEArray n = replicate (nat n) 0"

definition SetSize :: "bytes \<Rightarrow> int \<Rightarrow> bytes" where
  "SetSize a n = take (nat n) a @ replicate (nat n - length a) 0"

text \<open>
  \<^verbatim>\<open>Encrypt(data, ivSequence, rtpPadding)\<close> returns the ciphertext, the flag it
  leaves in \<^verbatim>\<open>rtpPadding\<close> and the engine. The remainder by a block size of zero has
  no result in C.
\<close>

definition Encrypt ::
  "platform \<Rightarrow> H235CryptoEngine \<Rightarrow> bytes \<Rightarrow> bytes option \<Rightarrow> bool
     \<Rightarrow> (bytes \<times> bool \<times> H235CryptoEngine) option" where
  "Encrypt env e data ivSequence rtpPadding =
     (if \<not> m_initialised e then Some ([], rtpPadding, e)
      else do {
        let iv = replicate EVP_MAX_IV_LENGTH 0;
        let ciphertext_len = int (length data) + m_enc_blockSize e;
        let final_len = 0;
        let ciphertext = PBYTEArray ciphertext_len;
        iv1 \<leftarrow> SetIV iv ivSequence (nat (m_enc_ivLength e));
        c0 \<leftarrow> m_encryptCtx e;
        c1 \<leftarrow> EVP_CipherInit_ex c0 None None (Some iv1) True;
        let h = Reset (m_encryptHelper e);
        if m_enc_blockSize e = 0 then None
        else do {
          let pad = (int (length data) mod m_enc_blockSize e > 0);
          let c2 = EVP_CIPHER_CTX_set_padding c1 pad;
          (h3, c3, ciphertext3, ciphertext_len3, final_len3) \<leftarrow>
            (if \<not> pad \<and> int (length data) mod m_enc_blockSize e > 0 then do {
               (r, h1, c3, out1, len1) \<leftarrow>
                 EncryptUpdateCTS env h c2 ciphertext 0 data 0 (int (length data));
               (r2, h2, c4, out2, len2) \<leftarrow> EncryptFinalCTS env h1 c3 out1 len1;
               Some (h2, c4, out2, len1, len2)
             } else do {
               (r, c3, out1, len1) \<leftarrow>
                 EVP_EncryptUpdate env c2 ciphertext 0 data 0 (int (length data));
               (r2, c4, out2, len2) \<leftarrow> EVP_EncryptFinal_ex env c3 out1 len1 final_len;
               Some (h, c4, out2, len1, len2)
             });
          Some (SetSize ciphertext3 (ciphertext_len3 + final_len3), pad,
                e\<lparr>m_encryptCtx := Some c3, m_encryptHelper := h3,
                  m_operationCnt := m_operationCnt e + 1\<rparr>)
        }
      })"

text \<open>
  \<^verbatim>\<open>EncryptInPlace(inData, inLength, outData, ivSequence, rtpPadding)\<close> returns its
  return value, the output array, the flag and the engine.
\<close>

definition EncryptInPlace ::
  "platform \<Rightarrow> H235CryptoEngine \<Rightarrow> bytes \<Rightarrow> int \<Rightarrow> bytes \<Rightarrow> bytes option \<Rightarrow> bool
     \<Rightarrow> (int \<times> bytes \<times> bool \<times> H235CryptoEngine) option" where
  "EncryptInPlace env e inData inLength outData ivSequence rtpPadding =
     (if \<not> m_initialised e then do {
        out1 \<leftarrow> memset outData 0 0 inLength;
        Some (inLength, out1, rtpPadding, e)
      }
      else do {
        let outSize = 0;
        let inSize = inLength + m_enc_blockSize e;
        iv1 \<leftarrow> SetIV (m_iv e) ivSequence (nat (m_enc_ivLength e));
        c0 \<leftarrow> m_encryptCtx e;
        c1 \<leftarrow> EVP_CipherInit_ex c0 None None (Some iv1) True;
        let h = Reset (m_encryptHelper e);
        if m_enc_blockSize e = 0 then None
        else do {
          let pad = (inLength mod m_enc_blockSize e > 0);
          let c2 = EVP_CIPHER_CTX_set_padding c1 pad;
          (h3, c3, outData3, inSize3, outSize3) \<leftarrow>
            (if \<not> pad \<and> inLength mod m_enc_blockSize e > 0 then do {
               (r, h1, c3, out1, len1) \<leftarrow> EncryptUpdateCTS env h c2 outData 0 inData 0 inLength;
               (r2, h2, c4, out2, len2) \<leftarrow> EncryptFinalCTS env h1 c3 out1 len1;
               Some (h2, c4, out2, len1, len2)
             } else do {
               (r, c3, out1, len1) \<leftarrow> EVP_EncryptUpdate env c2 outData 0 inData 0 inLength;
               (r2, c4, out2, len2) \<leftarrow> EVP_EncryptFinal_ex env c3 out1 len1 outSize;
               Some (h, c4, out2, len1, len2)
             });
          Some (inSize3 + outSize3, outData3, pad,
                e\<lparr>m_iv := iv1, m_encryptCtx := Some c3, m_encryptHelper := h3\<rparr>)
        }
      })"

text \<open>
  \<^verbatim>\<open>Decrypt(data, ivSequence, rtpPadding)\<close> returns the plaintext, the flag it leaves
  in \<^verbatim>\<open>rtpPadding\<close> and the engine. It goes on after a failing update or final.
\<close>

definition Decrypt ::
  "platform \<Rightarrow> H235CryptoEngine \<Rightarrow> bytes \<Rightarrow> bytes option \<Rightarrow> bool
     \<Rightarrow> (bytes \<times> bool \<times> H235CryptoEngine) option" where
  "Decrypt env e data ivSequence rtpPadding =
     (if \<not> m_initialised e then Some ([], rtpPadding, e)
      else do {
        let iv = replicate EVP_MAX_IV_LENGTH 0;
        let plaintext_len = int (length data);
        let plaintext = PBYTEArray plaintext_len;
        iv1 \<leftarrow> SetIV iv ivSequence (nat (m_dec_ivLength e));
        c0 \<leftarrow> m_decryptCtx e;
        c1 \<leftarrow> EVP_CipherInit_ex c0 None None (Some iv1) False;
        let h = Reset (m_decryptHelper e);
        let c2 = EVP_CIPHER_CTX_set_padding c1 rtpPadding;
        if \<not> rtpPadding \<and> m_dec_blockSize e = 0 then None
        else do {
          (h3, c3, plaintext3, plaintext_len3, final_len3) \<leftarrow>
            (if \<not> rtpPadding \<and> int (length data) mod m_dec_blockSize e > 0 then do {
               (r, h1, c3, out1, len1) \<leftarrow>
                 DecryptUpdateCTS env h c2 plaintext 0 data 0 (int (length data));
               (r2, h2, c4, out2, len2) \<leftarrow> DecryptFinalCTS env h1 c3 out1 len1;
               Some (h2, c4, out2, len1, len2)
             } else do {
               (r, h1, c3, out1, len1) \<leftarrow>
                 DecryptUpdate env h c2 plaintext 0 data 0 (int (length data));
               (r2, h2, c4, out2, len2) \<leftarrow> DecryptFinalRelaxed env h1 c3 out1 len1;
               Some (h2, c4, out2, len1, len2)
             });
          Some (SetSize plaintext3 (plaintext_len3 + final_len3), False,
                e\<lparr>m_decryptCtx := Some c3, m_decryptHelper := h3,
                  m_operationCnt := m_operationCnt e + 1\<rparr>)
        }
      })"

text \<open>
  \<^verbatim>\<open>DecryptInPlace(inData, inLength, outData, ivSequence, rtpPadding)\<close> returns its
  return value, the output array, the flag and the engine. It does not look at
  \<^verbatim>\<open>m_initialised\<close>, and gives up with 0 after a failing update or final.
\<close>

definition DecryptInPlace ::
  "platform \<Rightarrow> H235CryptoEngine \<Rightarrow> bytes \<Rightarrow> int \<Rightarrow> bytes \<Rightarrow> bytes option \<Rightarrow> bool
     \<Rightarrow> (int \<times> bytes \<times> bool \<times> H235CryptoEngine) option" where
  "DecryptInPlace env e inData inLength outData ivSequence rtpPadding =
     do {
       iv1 \<leftarrow> SetIV (m_iv e) ivSequence (nat (m_dec_ivLength e));
       c0 \<leftarrow> m_decryptCtx e;
       c1 \<leftarrow> EVP_CipherInit_ex c0 None None (Some iv1) False;
       let h = Reset (m_decryptHelper e);
       let c2 = EVP_CIPHER_CTX_set_padding c1 rtpPadding;
       if \<not> rtpPadding \<and> m_dec_blockSize e = 0 then None
       else if \<not> rtpPadding \<and> inLength mod m_dec_blockSize e > 0 then do {
         (r, h1, c3, out1, inSize) \<leftarrow> DecryptUpdateCTS env h c2 outData 0 inData 0 inLength;
         if r = 0 then
           Some (0, out1, rtpPadding, e\<lparr>m_iv := iv1, m_decryptCtx := Some c3, m_decryptHelper := h1\<rparr>)
         else do {
           (r2, h2, c4, out2, outSize) \<leftarrow> DecryptFinalCTS env h1 c3 out1 inSize;
           if r2 = 0 then
             Some (0, out2, rtpPadding,
                   e\<lparr>m_iv := iv1, m_decryptCtx := Some c4, m_decryptHelper := h2\<rparr>)
           else
             Some (inSize + outSize, out2, False,
                   e\<lparr>m_iv := iv1, m_decryptCtx := Some c4, m_decryptHelper := h2\<rparr>)
         }
       } else do {
         (r, h1, c3, out1, inSize) \<leftarrow> DecryptUpdate env h c2 outData 0 inData 0 inLength;
         if r = 0 then
           Some (0, out1, rtpPadding, e\<lparr>m_iv := iv1, m_decryptCtx := Some c3, m_decryptHelper := h1\<rparr>)
         else do {
           (r2, h2, c4, out2, outSize) \<leftarrow> DecryptFinalRelaxed env h1 c3 out1 inSize;
           if r2 = 0 then
             Some (0, out2, rtpPadding,
                   e\<lparr>m_iv := iv1, m_decryptCtx := Some c4, m_decryptHelper := h2\<rparr>)
           else
             Some (inSize + outSize, out2, False,
                   e\<lparr>m_iv := iv1, m_decryptCtx := Some c4, m_decryptHelper := h2\<rparr>)
         }
       }
     }"

text \<open>\<^verbatim>\<open>RAND_bytes(key.GetPointer(), key.GetSize())\<close> fills the whole array.\<close>

definition RAND_bytes :: "platform \<Rightarrow> bytes \<Rightarrow> bytes" where
  "RAND_bytes env a = map (RAND_source env) [0..<length a]"

text \<open>\<^verbatim>\<open>GenerateRandomKey(algorithmOID)\<close>, and the form without argument below.\<close>

definition GenerateRandomKey :: "platform \<Rightarrow> H235CryptoEngine \<Rightarrow> string \<Rightarrow> bytes" where
  "GenerateRandomKey env e algorithmOID =
     (let key = [] in
      if algorithmOID = ID_AES128 then RAND_bytes env (SetSize key 16)
      else if H323_H235_AES256 env \<and> m_algorithmOID e = ID_AES192 then RAND_bytes env (SetSize key 24)
      else if H323_H235_AES256 env \<and> m_algorithmOID e = ID_AES256 then RAND_bytes env (SetSize key 32)
      else key)"


section \<open>The session: \<^verbatim>\<open>H235Session\<close>\<close>






section \<open>A platform to run the model on\<close>

text \<open>
  The theorems below hold for every platform whose block function is a bijection on
  blocks. To run the definitions on concrete packets, this platform has a simple
  invertible block function in the place of AES (the block reversed, each byte moved by
  the sum of the key bytes), the larger key sizes compiled in and a fixed byte sequence
  as random source.
\<close>

definition demo_encrypt_block :: "bytes \<Rightarrow> bytes \<Rightarrow> bytes" where
  "demo_encrypt_block k b = map (\<lambda>x. x + sum_list k) (rev b)"

definition demo_decrypt_block :: "bytes \<Rightarrow> bytes \<Rightarrow> bytes" where
  "demo_decrypt_block k b = rev (map (\<lambda>x. x - sum_list k) b)"

definition demo_platform :: platform where
  "demo_platform =
     \<lparr>encrypt_block = demo_encrypt_block, decrypt_block = demo_decrypt_block,
      H323_H235_AES256 = True, RAND_source = (\<lambda>i. word_of_nat (7 * i + 3))\<rparr>"

definition demo_key :: bytes where
  "demo_key = [0, 1, 2, 3, 4, 5, 6, 7, 8, 9, 10, 11, 12, 13, 14, 15]"

definition demo_seed :: bytes where
  "demo_seed = [16, 17, 18, 19, 20, 21]"

section \<open>Notions the properties are stated with\<close>

text \<open>
  What is asked of the block function under the key \<open>k\<close>: it maps blocks of 16 bytes
  to blocks of 16 bytes, and deciphering undoes enciphering.
\<close>

definition block_cipher_ok :: "platform \<Rightarrow> bytes \<Rightarrow> bool" where
  "block_cipher_ok env k =
     (\<forall>b. length b = 16 \<longrightarrow>
        length (encrypt_block env k b) = 16 \<and> length (decrypt_block env k b) = 16
        \<and> decrypt_block env k (encrypt_block env k b) = b)"

text \<open>
  The IV as the spec words it: the seed twice and then its first four bytes, or sixteen
  zero bytes without a seed. A seed pointer is usable when it is null or has six bytes
  behind it.
\<close>

definition tiled_iv :: "bytes option \<Rightarrow> bytes" where
  "tiled_iv ivSequence =
     (case ivSequence of None \<Rightarrow> replicate 16 0 | Some s \<Rightarrow> take 6 s @ take 6 s @ take 4 s)"

definition seed_ok :: "bytes option \<Rightarrow> bool" where
  "seed_ok ivSequence = (case ivSequence of None \<Rightarrow> True | Some s \<Rightarrow> 6 \<le> length s)"

text \<open>
  An initialised engine that holds the key \<open>k\<close>: the state \<^verbatim>\<open>SetKey\<close> leaves and
  every later packet keeps.
\<close>

definition engine_keyed :: "bytes \<Rightarrow> H235CryptoEngine \<Rightarrow> bool" where
  "engine_keyed k e =
     (m_initialised e \<and> m_enc_blockSize e = 16 \<and> m_enc_ivLength e = 16
      \<and> m_dec_blockSize e = 16 \<and> m_dec_ivLength e = 16
      \<and> (case m_encryptCtx e of None \<Rightarrow> False
          | Some c \<Rightarrow> ctx_cipher c \<noteq> None \<and> ctx_key c = k \<and> length (ctx_buf c) = 32)
      \<and> (case m_decryptCtx e of None \<Rightarrow> False
          | Some c \<Rightarrow> ctx_cipher c \<noteq> None \<and> ctx_key c = k)
      \<and> length (buf (m_decryptHelper e)) = 32 \<and> length (final_buf (m_decryptHelper e)) = 32
      \<and> length (m_iv e) = 16)"

text \<open>The context of one packet: the IV installed and the padding chosen.\<close>

definition packet_ctx :: "EVP_CIPHER_CTX \<Rightarrow> bool \<Rightarrow> bytes option \<Rightarrow> bool \<Rightarrow> EVP_CIPHER_CTX" where
  "packet_ctx c enc S pad =
     c\<lparr>ctx_encrypt := enc, ctx_oiv := tiled_iv S, ctx_iv := tiled_iv S, ctx_buf_len := 0,
       ctx_no_padding := \<not> pad\<rparr>"

text \<open>The engine for AES-128 on the platform above, after \<^verbatim>\<open>SetKey\<close> with the key above.\<close>

definition demo_engine :: H235CryptoEngine where
  "demo_engine =
     (case SetKey demo_platform demo_key (new_H235CryptoEngine ID_AES128) of
        Some e \<Rightarrow> e | None \<Rightarrow> new_H235CryptoEngine ID_AES128)"

text \<open>
  A keyed context with padding enabled, and a helper that retains a block whose last byte
  is 5 and whose filler bytes are not.
\<close>

definition demo_ctx :: EVP_CIPHER_CTX where
  "demo_ctx = EVP_CIPHER_CTX_new\<lparr>ctx_cipher := Some EVP_aes_128_cbc, ctx_key := demo_key\<rparr>"

definition demo_retained :: H235CryptoHelper where
  "demo_retained =
     new_H235CryptoHelper
       \<lparr>final_buf := [1, 2, 3, 4, 5, 6, 7, 8, 9, 10, 11, 255, 255, 255, 255, 5] @ replicate 16 0,
        final_used := 1\<rparr>"




text \<open>
  The helper after a CTS update of a fresh helper with the twenty bytes 1 to 20: the
  first block is retained, the last four bytes are staged over the start of the block
  that was staged before.
\<close>

definition demo_two_blocks :: H235CryptoHelper where
  "demo_two_blocks =
     new_H235CryptoHelper
       \<lparr>buf := [17, 18, 19, 20, 5, 6, 7, 8, 9, 10, 11, 12, 13, 14, 15, 16] @ replicate 16 0,
        final_buf := [1, 2, 3, 4, 5, 6, 7, 8, 9, 10, 11, 12, 13, 14, 15, 16] @ replicate 16 0,
        buf_len := 4, final_used := 1\<rparr>"

section \<open>Facts about memory\<close>

lemma mem_read_whole [simp]: "mem_read m 0 (int (length m)) = Some m"
  by (simp add: mem_read_def)

lemma mem_read_prefix: "n \<le> length m \<Longrightarrow> mem_read m 0 (int n) = Some (take n m)"
  by (simp add: mem_read_def)

lemma mem_read_at:
  "off + n \<le> length m \<Longrightarrow> mem_read m (int off) (int n) = Some (take n (drop off m))"
  by (simp add: mem_read_def)

lemma mem_write_at:
  "off + length xs \<le> length m \<Longrightarrow>
   mem_write m (int off) xs = Some (take off m @ xs @ drop (off + length xs) m)"
  by (simp add: mem_write_def)

lemma mem_write_length:
  "mem_write m off xs = Some m' \<Longrightarrow> length m' = length m"
  by (auto simp: mem_write_def split: if_splits)

lemma memcpy_at:
  "soff + n \<le> length src \<Longrightarrow> doff + n \<le> length dst \<Longrightarrow>
   memcpy dst (int doff) src (int soff) (int n) =
     Some (take doff dst @ take n (drop soff src) @ drop (doff + n) dst)"
  by (simp add: memcpy_def mem_read_at mem_write_at min_absorb2)

lemma memcpy_length:
  "memcpy dst doff src soff n = Some m' \<Longrightarrow> length m' = length dst"
  by (auto simp: memcpy_def mem_write_length split: option.splits)

section \<open>Facts about the IV builder\<close>

lemma SetIV_loop_16:
  assumes "length iv = 16" and "6 \<le> length s"
  shows "SetIV_loop iv s 16 0 = Some (take 6 s @ take 6 s @ drop 12 iv)"
proof -
  have d: "(16::nat) div IV_SEQUENCE_LEN = 2"
    by (simp add: IV_SEQUENCE_LEN_def)
  have m0: "memcpy iv (int (0 * IV_SEQUENCE_LEN)) s 0 (int IV_SEQUENCE_LEN)
              = Some (take 6 s @ drop 6 iv)"
    using assms memcpy_at [of 0 6 s 0 iv] by (simp add: IV_SEQUENCE_LEN_def)
  have m1: "memcpy (take 6 s @ drop 6 iv) (int (1 * IV_SEQUENCE_LEN)) s 0 (int IV_SEQUENCE_LEN)
              = Some (take 6 s @ take 6 s @ drop 12 iv)"
    using assms memcpy_at [of 0 6 s 6 "take 6 s @ drop 6 iv"]
    by (simp add: IV_SEQUENCE_LEN_def min_absorb2)
  have s2: "SetIV_loop (take 6 s @ take 6 s @ drop 12 iv) s 16 (Suc (Suc 0))
              = Some (take 6 s @ take 6 s @ drop 12 iv)"
    by (subst SetIV_loop.simps) (simp add: d)
  have s1: "SetIV_loop (take 6 s @ drop 6 iv) s 16 (Suc 0)
              = Some (take 6 s @ take 6 s @ drop 12 iv)"
    using m1 s2 by (subst SetIV_loop.simps) (simp add: d)
  show ?thesis
    using m0 s1 by (subst SetIV_loop.simps) (simp add: d)
qed

lemma SetIV_16_seed:
  assumes "length iv = 16" and "6 \<le> length s"
  shows "SetIV iv (Some s) 16 = Some (take 6 s @ take 6 s @ take 4 s)"
proof -
  have r: "(16::nat) mod IV_SEQUENCE_LEN = 4"
    by (simp add: IV_SEQUENCE_LEN_def)
  have "memcpy (take 6 s @ take 6 s @ drop 12 iv) (int 12) s (int 0) (int 4)
          = Some (take 6 s @ take 6 s @ take 4 s)"
    using assms by (subst memcpy_at) (simp_all add: min_absorb2)
  then show ?thesis
    using assms by (simp add: SetIV_def SetIV_loop_16 r)
qed

lemma SetIV_16_null:
  assumes "length iv = 16"
  shows "SetIV iv None 16 = Some (replicate 16 0)"
  using assms mem_write_at [of 0 "replicate 16 0" iv]
  by (simp add: SetIV_def memset_def)

text \<open>
  Claim C4. For a seed \<open>s\<close> of exactly six bytes and an output of sixteen bytes,
  \<open>SetIV\<close> returns the seed twice followed by its first four bytes. The seed array ends
  at index 5 and every read is range-checked, so the result \<open>Some\<close> says that no byte
  beyond index 5 was read; bytes that follow the seed in a larger array do not change the
  result. With a null seed pointer the output is sixteen zero bytes.
\<close>

theorem SetIV_tiles_seed:
  "length iv = 16 \<and> length s = 6 \<longrightarrow>
     SetIV iv (Some s) 16 = Some (s @ s @ take 4 s)
     \<and> SetIV iv (Some (s @ following)) 16 = SetIV iv (Some s) 16
     \<and> SetIV iv None 16 = Some (replicate 16 0)"
  by (simp add: SetIV_16_seed SetIV_16_null)

theorem SetIV_tiles_seed_witness:
  "SetIV (replicate 16 0) (Some [16, 17, 18, 19, 20, 21]) 16
     = Some [16, 17, 18, 19, 20, 21, 16, 17, 18, 19, 20, 21, 16, 17, 18, 19]
   \<and> SetIV (replicate 16 0) (Some ([16, 17, 18, 19, 20, 21] @ [255, 255])) 16
     = SetIV (replicate 16 0) (Some [16, 17, 18, 19, 20, 21]) 16
   \<and> SetIV (replicate 16 0) None 16 = Some (replicate 16 0)"
  using SetIV_tiles_seed [of "replicate 16 0" "[16, 17, 18, 19, 20, 21]" "[255, 255]"]
  by simp

section \<open>Facts about CBC\<close>

lemma and_15: "(x::int) AND 15 = x mod 16"
proof -
  have "(15::int) = mask 4" by (simp add: mask_eq_exp_minus_1)
  then show ?thesis by (simp only: take_bit_eq_mask [symmetric] take_bit_eq_mod) simp
qed

lemma xor_bytes_length [simp]: "length (xor_bytes a b) = min (length a) (length b)"
  by (simp add: xor_bytes_def)

lemma xor_bytes_cancel: "length a = length b \<Longrightarrow> xor_bytes (xor_bytes a b) b = a"
proof (induction a arbitrary: b)
  case Nil then show ?case by (simp add: xor_bytes_def)
next
  case (Cons x a)
  then obtain y b' where "b = y # b'" by (cases b) auto
  with Cons show ?case by (simp add: xor_bytes_def xor.assoc)
qed

lemma cbc_encrypt_length:
  "(\<And>b. length b = 16 \<Longrightarrow> length (E b) = 16) \<Longrightarrow> length v = 16 \<Longrightarrow> 16 * n \<le> length d \<Longrightarrow>
   length (fst (cbc_encrypt E v d n)) = 16 * n \<and> length (snd (cbc_encrypt E v d n)) = 16"
proof (induction n arbitrary: v d)
  case 0 then show ?case by simp
next
  case (Suc n)
  have l: "length (E (xor_bytes (take 16 d) v)) = 16"
    using Suc.prems by (simp add: min_absorb2)
  have "16 * n \<le> length (drop 16 d)" using Suc.prems by simp
  from Suc.IH [OF Suc.prems(1) l this] l show ?case by (simp add: Let_def)
qed

lemma cbc_decrypt_length:
  "(\<And>b. length b = 16 \<Longrightarrow> length (D b) = 16) \<Longrightarrow> length v = 16 \<Longrightarrow> 16 * n \<le> length d \<Longrightarrow>
   length (fst (cbc_decrypt D v d n)) = 16 * n \<and> length (snd (cbc_decrypt D v d n)) = 16"
proof (induction n arbitrary: v d)
  case 0 then show ?case by simp
next
  case (Suc n)
  have l: "length (take 16 d) = 16" using Suc.prems by simp
  have "16 * n \<le> length (drop 16 d)" using Suc.prems by simp
  from Suc.IH [OF Suc.prems(1) l this] l Suc.prems show ?case by (simp add: Let_def)
qed

lemma cbc_roundtrip:
  assumes "\<And>b. length b = 16 \<Longrightarrow> length (E b) = 16 \<and> D (E b) = b"
  shows "length v = 16 \<Longrightarrow> length d = 16 * n \<Longrightarrow>
   fst (cbc_decrypt D v (fst (cbc_encrypt E v d n)) n) = d"
proof (induction n arbitrary: v d)
  case 0 then show ?case by simp
next
  case (Suc n)
  let ?x = "xor_bytes (take 16 d) v"
  let ?c = "E ?x"
  have lx: "length ?x = 16" using Suc.prems by simp
  have lc: "length ?c = 16" using assms lx by blast
  have dc: "D ?c = ?x" using assms lx by blast
  have ld: "length (drop 16 d) = 16 * n" using Suc.prems by simp
  have x: "xor_bytes ?x v = take 16 d"
    using Suc.prems by (intro xor_bytes_cancel) simp
  show ?case
    using Suc.IH [OF lc ld] lc dc x by (simp add: Let_def)
qed

lemma cbc_encrypt_take:
  "cbc_encrypt E v (take (16 * n) d) n = cbc_encrypt E v d n"
proof (induction n arbitrary: v d)
  case 0 then show ?case by simp
next
  case (Suc n)
  have a: "take 16 (take (16 * Suc n) d) = take 16 d" by (simp add: min_absorb1)
  have b: "drop 16 (take (16 * Suc n) d) = take (16 * n) (drop 16 d)"
    by (simp add: drop_take)
  show ?case by (simp only: cbc_encrypt.simps a b Suc.IH)
qed

lemma cbc_decrypt_take:
  "cbc_decrypt D v (take (16 * n) d) n = cbc_decrypt D v d n"
proof (induction n arbitrary: v d)
  case 0 then show ?case by simp
next
  case (Suc n)
  have a: "take 16 (take (16 * Suc n) d) = take 16 d" by (simp add: min_absorb1)
  have b: "drop 16 (take (16 * Suc n) d) = take (16 * n) (drop 16 d)"
    by (simp add: drop_take)
  show ?case by (simp only: cbc_decrypt.simps a b Suc.IH)
qed

section \<open>Facts about the cipher call\<close>

lemma ctx_cbc_length:
  assumes "block_cipher_ok env (ctx_key c)" and "length (ctx_iv c) = 16" and "16 * n \<le> length d"
  shows "length (fst (ctx_cbc env c d n)) = 16 * n" and "length (snd (ctx_cbc env c d n)) = 16"
  using assms cbc_encrypt_length [of "encrypt_block env (ctx_key c)" "ctx_iv c" n d]
    cbc_decrypt_length [of "decrypt_block env (ctx_key c)" "ctx_iv c" n d]
  by (simp_all add: ctx_cbc_def block_cipher_ok_def)

lemma ctx_cbc_take: "ctx_cbc env c (take (16 * n) d) n = ctx_cbc env c d n"
  by (simp add: ctx_cbc_def cbc_encrypt_take cbc_decrypt_take)

lemma ctx_cbc_0 [simp]: "ctx_cbc env c d 0 = ([], ctx_iv c)"
  by (simp add: ctx_cbc_def)

lemma block_size_16:
  "ctx_cipher c = Some ci \<Longrightarrow> EVP_CIPHER_CTX_block_size c = Some 16"
  by (simp add: EVP_CIPHER_CTX_block_size_def EVP_CIPHER_block_size_def)

lemma EVP_Cipher_blocks:
  assumes "ctx_cipher c = Some ci" and "block_cipher_ok env (ctx_key c)"
    and "length (ctx_iv c) = 16"
    and "ip + 16 * n \<le> length inp" and "op + 16 * n \<le> length out"
  shows "EVP_Cipher env c out (int op) inp (int ip) (int (16 * n)) =
           Some (1, c\<lparr>ctx_iv := snd (ctx_cbc env c (drop ip inp) n)\<rparr>,
                 take op out @ fst (ctx_cbc env c (drop ip inp) n) @ drop (op + 16 * n) out)"
proof -
  have rd: "mem_read inp (int ip) (int (16 * n)) = Some (take (16 * n) (drop ip inp))"
    using assms(4) by (rule mem_read_at)
  have len: "length (fst (ctx_cbc env c (drop ip inp) n)) = 16 * n"
    using assms by (intro ctx_cbc_length) simp_all
  have wr: "mem_write out (int op) (fst (ctx_cbc env c (drop ip inp) n)) =
              Some (take op out @ fst (ctx_cbc env c (drop ip inp) n) @ drop (op + 16 * n) out)"
    using mem_write_at [of op "fst (ctx_cbc env c (drop ip inp) n)" out] assms(5) len by simp
  have dv: "nat (int (16 * n) div 16) = n" by simp
  have md: "int (16 * n) mod 16 = 0" by simp
  show ?thesis
    by (simp only: EVP_Cipher_def assms(1) option.case rd bind.bind_lunit EVP_CIPHER_block_size_def
        md dv Let_def ctx_cbc_take wr) simp
qed

section \<open>The standard update from an empty helper\<close>

lemma helper_eq_self: "buf_len h = 0 \<Longrightarrow> h\<lparr>buf := buf h, buf_len := 0\<rparr> = h"
  by simp

lemma EncryptUpdate_from_empty:
  assumes ci: "ctx_cipher c = Some ci" and ok: "block_cipher_ok env (ctx_key c)"
    and iv: "length (ctx_iv c) = 16"
    and bl: "16 \<le> length (buf h)" and empty: "buf_len h = 0"
    and inp: "length inp = 16 * q + r" and r: "r < 16" and pos: "0 < 16 * q + r"
    and out: "op + 16 * q \<le> length out"
  shows "EncryptUpdate env h c out (int op) inp 0 (int (16 * q + r)) =
           Some (1,
                 h\<lparr>buf := (if r = 0 then buf h else take r (drop (16 * q) inp) @ drop r (buf h)),
                   buf_len := int r\<rparr>,
                 c\<lparr>ctx_iv := snd (ctx_cbc env c inp q)\<rparr>,
                 take op out @ fst (ctx_cbc env c inp q) @ drop (op + 16 * q) out,
                 int (16 * q))"
proof (cases "r = 0")
  case True
  have m: "int (16 * q) AND (16 - 1) = 0" by (simp add: and_15)
  have cip: "EVP_Cipher env c out (int op) inp 0 (int (16 * q)) =
           Some (1, c\<lparr>ctx_iv := snd (ctx_cbc env c inp q)\<rparr>,
                 take op out @ fst (ctx_cbc env c inp q) @ drop (op + 16 * q) out)"
    using EVP_Cipher_blocks [OF ci ok iv, of 0 q inp op out] inp out True by simp
  have pos': "\<not> int (16 * q) \<le> 0" using pos True by simp
  have bl': "(16::int) \<le> int (length (buf h))" using bl by simp
  show ?thesis
    using True empty
    by (simp only: EncryptUpdate_def pos' if_False block_size_16 [OF ci] bind.bind_lunit bl'
        not_not if_True m cip add_0_right simp_thms) simp
next
  case False
  have m: "int (16 * q + r) AND (16 - 1) = int r" using r by (simp add: and_15)
  have cip: "EVP_Cipher env c out (int op) inp 0 (int (16 * q)) =
           Some (1, c\<lparr>ctx_iv := snd (ctx_cbc env c inp q)\<rparr>,
                 take op out @ fst (ctx_cbc env c inp q) @ drop (op + 16 * q) out)"
    using EVP_Cipher_blocks [OF ci ok iv, of 0 q inp op out] inp out by simp
  have cp: "memcpy (buf h) 0 inp (int (16 * q)) (int r) =
              Some (take r (drop (16 * q) inp) @ drop r (buf h))"
    using memcpy_at [of "16 * q" r inp 0 "buf h"] inp bl r by simp
  have "0 < int (16 * q + r)" using pos by (simp only: of_nat_0_less_iff)
  then have pos': "\<not> int (16 * q + r) \<le> 0" by linarith
  have bl': "(16::int) \<le> int (length (buf h))" using bl by simp
  have sub: "int (16 * q + r) - int r = int (16 * q)" by simp
  show ?thesis
  proof (cases "q = 0")
    case True
    then show ?thesis
      using False empty cp bl
      by (simp add: EncryptUpdate_def block_size_16 [OF ci] and_15 r)
  next
    case q: False
    then show ?thesis
      using False empty cp cip bl
      by (simp add: EncryptUpdate_def block_size_16 [OF ci] and_15 r)
  qed
qed

section \<open>The padded update and the relaxed final\<close>

lemma DecryptUpdate_zero:
  "DecryptUpdate env h c out op inp ip 0 = Some (1, h, c, out, 0)"
  by (simp add: DecryptUpdate_def)

lemma DecryptUpdate_no_padding:
  "ctx_no_padding c \<Longrightarrow> 0 < inl \<Longrightarrow>
   DecryptUpdate env h c out op inp ip inl = EncryptUpdate env h c out op inp ip inl"
  by (simp add: DecryptUpdate_def)

lemma DecryptUpdate_padded_aligned:
  assumes ci: "ctx_cipher c = Some ci" and ok: "block_cipher_ok env (ctx_key c)"
    and iv: "length (ctx_iv c) = 16" and pad: "\<not> ctx_no_padding c"
    and bl: "16 \<le> length (buf h)" and fl: "16 \<le> length (final_buf h)"
    and empty: "buf_len h = 0" and fu: "final_used h = 0"
    and inp: "length inp = 16 * Suc m"
    and out: "op + 16 * Suc m \<le> length out"
  shows "DecryptUpdate env h c out (int op) inp 0 (int (16 * Suc m)) =
           Some (1,
                 h\<lparr>final_used := 1,
                   final_buf := drop (16 * m) (fst (ctx_cbc env c inp (Suc m))) @ drop 16 (final_buf h)\<rparr>,
                 c\<lparr>ctx_iv := snd (ctx_cbc env c inp (Suc m))\<rparr>,
                 take op out @ fst (ctx_cbc env c inp (Suc m)) @ drop (op + 16 * Suc m) out,
                 int (16 * m))"
proof -
  let ?R = "ctx_cbc env c inp (Suc m)"
  let ?out1 = "take op out @ fst ?R @ drop (op + 16 * Suc m) out"
  have len: "length (fst ?R) = 16 * Suc m"
    using ok iv inp by (intro ctx_cbc_length) simp_all
  have up: "EncryptUpdate env h c out (int op) inp 0 (int (16 * Suc m)) =
          Some (1, h, c\<lparr>ctx_iv := snd ?R\<rparr>, ?out1, int (16 * Suc m))"
    using EncryptUpdate_from_empty [OF ci ok iv bl empty, of inp "Suc m" 0 op out] inp out empty
    by simp
  have lo: "length ?out1 = length out" using len out by simp
  have dr: "drop (op + 16 * m) ?out1 = drop (16 * m) (fst ?R) @ drop (op + 16 * Suc m) out"
    using len out by (simp add: drop_append)
  have ld: "length (drop (16 * m) (fst ?R)) = 16" using len by simp
  have t16: "take 16 (drop (op + 16 * m) ?out1) = drop (16 * m) (fst ?R)"
    by (simp only: dr) (simp add: ld len)
  have ix: "int op + (int (16 * Suc m) - 16) = int (op + 16 * m)" by simp
  have "memcpy (final_buf h) (int 0) ?out1 (int (op + 16 * m)) (int 16) =
          Some (take 0 (final_buf h) @ take 16 (drop (op + 16 * m) ?out1) @ drop (0 + 16) (final_buf h))"
    using fl lo out by (intro memcpy_at) simp_all
  then have cp: "memcpy (final_buf h) 0 ?out1 (int op + (int (16 * Suc m) - 16)) 16 =
          Some (drop (16 * m) (fst ?R) @ drop 16 (final_buf h))"
    by (simp only: ix t16) simp
  have pos: "\<not> int (16 * Suc m) \<le> 0" by simp
  have fl': "(16::int) \<le> int (length (final_buf h))" using fl by simp
  have ol: "int (16 * Suc m) - 16 = int (16 * m)" by simp
  show ?thesis
    using pad fu empty fl' cp
    by (simp add: DecryptUpdate_def block_size_16 [OF ci] up ol del: of_nat_mult of_nat_Suc mult_Suc_right)
qed

lemma DecryptUpdate_padded_unaligned:
  assumes ci: "ctx_cipher c = Some ci" and ok: "block_cipher_ok env (ctx_key c)"
    and iv: "length (ctx_iv c) = 16" and pad: "\<not> ctx_no_padding c"
    and bl: "16 \<le> length (buf h)" and fl: "16 \<le> length (final_buf h)"
    and empty: "buf_len h = 0" and fu: "final_used h = 0"
    and inp: "length inp = 16 * q + r" and r: "0 < r" "r < 16"
    and out: "op + 16 * q \<le> length out"
  shows "DecryptUpdate env h c out (int op) inp 0 (int (16 * q + r)) =
           Some (1,
                 h\<lparr>buf := take r (drop (16 * q) inp) @ drop r (buf h), buf_len := int r\<rparr>,
                 c\<lparr>ctx_iv := snd (ctx_cbc env c inp q)\<rparr>,
                 take op out @ fst (ctx_cbc env c inp q) @ drop (op + 16 * q) out,
                 int (16 * q))"
proof -
  have up: "EncryptUpdate env h c out (int op) inp 0 (int (16 * q + r)) =
           Some (1,
                 h\<lparr>buf := take r (drop (16 * q) inp) @ drop r (buf h), buf_len := int r\<rparr>,
                 c\<lparr>ctx_iv := snd (ctx_cbc env c inp q)\<rparr>,
                 take op out @ fst (ctx_cbc env c inp q) @ drop (op + 16 * q) out,
                 int (16 * q))"
    using EncryptUpdate_from_empty [OF ci ok iv bl empty inp r(2) _ out] r(1) by simp
  have "0 < int (16 * q + r)" using r(1) by simp
  then have pos: "\<not> int (16 * q + r) \<le> 0" by linarith
  have fl': "(16::int) \<le> int (length (final_buf h))" using fl by simp
  show ?thesis
    using pad fu fl' r(1)
    by (simp only: DecryptUpdate_def pos if_False block_size_16 [OF ci] bind.bind_lunit
        not_not up simp_thms if_True case_prod_conv) simp
qed

lemma DecryptFinalRelaxed_no_padding:
  "ctx_no_padding c \<Longrightarrow> buf_len h = 0 \<Longrightarrow> DecryptFinalRelaxed env h c out op = Some (1, h, c, out, 0)"
  by (simp add: DecryptFinalRelaxed_def)

lemma DecryptFinalRelaxed_wrong_length:
  "ctx_cipher c = Some ci \<Longrightarrow> \<not> ctx_no_padding c \<Longrightarrow> buf_len h \<noteq> 0 \<or> final_used h = 0 \<Longrightarrow>
   DecryptFinalRelaxed env h c out op = Some (0, h, c, out, 0)"
  by (simp add: DecryptFinalRelaxed_def block_size_16)

lemma mem_byte_at: "i < length a \<Longrightarrow> mem_byte a (int i) = Some (a ! i)"
  by (simp add: mem_byte_def)

lemma DecryptFinalRelaxed_bad:
  assumes "ctx_cipher c = Some ci" and "\<not> ctx_no_padding c" and "buf_len h = 0"
    and "final_used h \<noteq> 0" and "16 \<le> length (final_buf h)"
    and "uint (final_buf h ! 15) = 0 \<or> uint (final_buf h ! 15) > 16"
  shows "DecryptFinalRelaxed env h c out op = Some (0, h, c, out, 0)"
proof -
  have "mem_byte (final_buf h) (16 - 1) = Some (final_buf h ! 15)"
    using mem_byte_at [of 15 "final_buf h"] assms(5) by simp
  then show ?thesis
    using assms by (auto simp add: DecryptFinalRelaxed_def block_size_16 Let_def)
qed

lemma DecryptFinalRelaxed_good:
  assumes "ctx_cipher c = Some ci" and "\<not> ctx_no_padding c" and "buf_len h = 0"
    and "final_used h \<noteq> 0" and "16 \<le> length (final_buf h)"
    and "unat (final_buf h ! 15) = n" and "0 < n" and "n \<le> 16"
    and "op + (16 - n) \<le> length out"
  shows "DecryptFinalRelaxed env h c out (int op) =
           Some (1, h, c, take op out @ take (16 - n) (final_buf h) @ drop (op + (16 - n)) out,
                 int (16 - n))"
proof -
  have b: "mem_byte (final_buf h) (16 - 1) = Some (final_buf h ! 15)"
    using mem_byte_at [of 15 "final_buf h"] assms(5) by simp
  have u: "uint (final_buf h ! 15) = int n"
    by (simp only: uint_nat assms(6))
  have nn: "\<not> (uint (final_buf h ! 15) = 0 \<or> uint (final_buf h ! 15) > 16)"
    using assms(7,8) by (simp add: u)
  have s: "16 - uint (final_buf h ! 15) = int (16 - n)" using assms(8) by (simp add: u)
  have "memcpy out (int op) (final_buf h) (int 0) (int (16 - n)) =
          Some (take op out @ take (16 - n) (drop 0 (final_buf h)) @ drop (op + (16 - n)) out)"
    using assms by (intro memcpy_at) simp_all
  then have cp: "memcpy out (int op) (final_buf h) 0 (int (16 - n)) =
          Some (take op out @ take (16 - n) (final_buf h) @ drop (op + (16 - n)) out)"
    by simp
  have fl: "(16::int) \<le> int (length (final_buf h))" using assms(5) by simp
  show ?thesis
    using assms(2-4) nn fl
    by (simp only: DecryptFinalRelaxed_def block_size_16 [OF assms(1)] bind.bind_lunit b Let_def
        s cp if_False simp_thms) simp
qed

section \<open>The start of a packet\<close>

lemma SetIV_tiled:
  "seed_ok S \<Longrightarrow> length iv = 16 \<Longrightarrow> SetIV iv S 16 = Some (tiled_iv S)"
  by (cases S) (simp_all add: seed_ok_def tiled_iv_def SetIV_16_seed SetIV_16_null)

lemma tiled_iv_length [simp]: "seed_ok S \<Longrightarrow> length (tiled_iv S) = 16"
  by (cases S) (simp_all add: seed_ok_def tiled_iv_def min_absorb2)

lemma EVP_CipherInit_ex_iv:
  "ctx_cipher c = Some ci \<Longrightarrow> length v = 16 \<Longrightarrow>
   EVP_CipherInit_ex c None None (Some v) enc =
     Some (c\<lparr>ctx_encrypt := enc, ctx_oiv := v, ctx_iv := v, ctx_buf_len := 0\<rparr>)"
  by (simp add: EVP_CipherInit_ex_def EVP_CIPHER_iv_length_def mem_read_def)

lemma engine_keyedD:
  assumes "engine_keyed k e"
  obtains ec dc eci dci where "m_initialised e" "m_enc_blockSize e = 16" "m_enc_ivLength e = 16"
    "m_dec_blockSize e = 16" "m_dec_ivLength e = 16"
    "m_encryptCtx e = Some ec" "ctx_cipher ec = Some eci" "ctx_key ec = k" "length (ctx_buf ec) = 32"
    "m_decryptCtx e = Some dc" "ctx_cipher dc = Some dci" "ctx_key dc = k"
    "length (buf (m_decryptHelper e)) = 32" "length (final_buf (m_decryptHelper e)) = 32"
    "length (m_iv e) = 16"
  using assms by (auto simp: engine_keyed_def split: option.splits)

lemma packet_ctx_simps [simp]:
  "ctx_cipher (packet_ctx c enc S pad) = ctx_cipher c"
  "ctx_key (packet_ctx c enc S pad) = ctx_key c"
  "ctx_iv (packet_ctx c enc S pad) = tiled_iv S"
  "ctx_no_padding (packet_ctx c enc S pad) = (\<not> pad)"
  "ctx_encrypt (packet_ctx c enc S pad) = enc"
  "ctx_buf (packet_ctx c enc S pad) = ctx_buf c"
  "ctx_buf_len (packet_ctx c enc S pad) = 0"
  by (simp_all add: packet_ctx_def)

lemma ctx_cbc_decrypt:
  "\<not> ctx_encrypt c \<Longrightarrow> ctx_cbc env c d n = cbc_decrypt (decrypt_block env (ctx_key c)) (ctx_iv c) d n"
  by (simp add: ctx_cbc_def)

lemma ctx_cbc_encrypt:
  "ctx_encrypt c \<Longrightarrow> ctx_cbc env c d n = cbc_encrypt (encrypt_block env (ctx_key c)) (ctx_iv c) d n"
  by (simp add: ctx_cbc_def)

text \<open>The start of Decrypt and DecryptInPlace, up to the choice of the path.\<close>

lemma Decrypt_start:
  assumes k: "engine_keyed k e" and S: "seed_ok S"
  obtains dc dci where "m_decryptCtx e = Some dc" "ctx_cipher dc = Some dci" "ctx_key dc = k"
    "Decrypt env e C S pad =
       (if \<not> pad \<and> int (length C) mod 16 > 0 then
          DecryptUpdateCTS env (Reset (m_decryptHelper e)) (packet_ctx dc False S pad)
             (replicate (length C) 0) 0 C 0 (int (length C))
          \<bind> (\<lambda>(r, h1, c3, out1, len1). DecryptFinalCTS env h1 c3 out1 len1
          \<bind> (\<lambda>(r2, h2, c4, out2, len2).
             Some (SetSize out2 (len1 + len2), False,
                e\<lparr>m_decryptCtx := Some c4, m_decryptHelper := h2,
                  m_operationCnt := m_operationCnt e + 1\<rparr>)))
        else
          DecryptUpdate env (Reset (m_decryptHelper e)) (packet_ctx dc False S pad)
             (replicate (length C) 0) 0 C 0 (int (length C))
          \<bind> (\<lambda>(r, h1, c3, out1, len1). DecryptFinalRelaxed env h1 c3 out1 len1
          \<bind> (\<lambda>(r2, h2, c4, out2, len2).
             Some (SetSize out2 (len1 + len2), False,
                e\<lparr>m_decryptCtx := Some c4, m_decryptHelper := h2,
                  m_operationCnt := m_operationCnt e + 1\<rparr>))))"
proof -
  from k obtain dc dci where d: "m_initialised e" "m_dec_blockSize e = 16" "m_dec_ivLength e = 16"
    "m_decryptCtx e = Some dc" "ctx_cipher dc = Some dci" "ctx_key dc = k"
    by (rule engine_keyedD)
  have iv: "SetIV (replicate EVP_MAX_IV_LENGTH 0) S 16 = Some (tiled_iv S)"
    using SetIV_tiled [OF S, of "replicate 16 0"] by (simp add: EVP_MAX_IV_LENGTH_def)
  have init: "EVP_CipherInit_ex dc None None (Some (tiled_iv S)) False =
     Some (dc\<lparr>ctx_encrypt := False, ctx_oiv := tiled_iv S, ctx_iv := tiled_iv S, ctx_buf_len := 0\<rparr>)"
    using d(5) S by (simp add: EVP_CipherInit_ex_iv)
  have "Decrypt env e C S pad = (if \<not> pad \<and> int (length C) mod 16 > 0 then
          DecryptUpdateCTS env (Reset (m_decryptHelper e)) (packet_ctx dc False S pad)
             (replicate (length C) 0) 0 C 0 (int (length C))
          \<bind> (\<lambda>(r, h1, c3, out1, len1). DecryptFinalCTS env h1 c3 out1 len1
          \<bind> (\<lambda>(r2, h2, c4, out2, len2).
             Some (SetSize out2 (len1 + len2), False,
                e\<lparr>m_decryptCtx := Some c4, m_decryptHelper := h2,
                  m_operationCnt := m_operationCnt e + 1\<rparr>)))
        else
          DecryptUpdate env (Reset (m_decryptHelper e)) (packet_ctx dc False S pad)
             (replicate (length C) 0) 0 C 0 (int (length C))
          \<bind> (\<lambda>(r, h1, c3, out1, len1). DecryptFinalRelaxed env h1 c3 out1 len1
          \<bind> (\<lambda>(r2, h2, c4, out2, len2).
             Some (SetSize out2 (len1 + len2), False,
                e\<lparr>m_decryptCtx := Some c4, m_decryptHelper := h2,
                  m_operationCnt := m_operationCnt e + 1\<rparr>))))"
    unfolding Decrypt_def
    by (simp add: d iv init Let_def PBYTEArray_def packet_ctx_def EVP_CIPHER_CTX_set_padding_def
        split_def cong: if_cong)
  with d show ?thesis by (rule_tac that)
qed

section \<open>Decrypt: a padded packet that is not block-aligned\<close>

lemma SetSize_take: "n \<le> length a \<Longrightarrow> SetSize a (int n) = take n a"
  by (simp add: SetSize_def)

lemma Reset_simps [simp]:
  "buf (Reset h) = buf h" "final_buf (Reset h) = final_buf h"
  "buf_len (Reset h) = 0" "final_used (Reset h) = 0"
  by (simp_all add: Reset_def)

lemma Decrypt_padded_unaligned:
  assumes k: "engine_keyed k e" and ok: "block_cipher_ok env k" and S: "seed_ok S"
    and len: "length C = 16 * q + r" and r: "0 < r" "r < 16"
  shows "\<exists>e'. Decrypt env e C S True =
           Some (fst (cbc_decrypt (decrypt_block env k) (tiled_iv S) C q), False, e')"
proof -
  from k S obtain dc dci where dc: "m_decryptCtx e = Some dc" "ctx_cipher dc = Some dci"
    "ctx_key dc = k"
    and st: "Decrypt env e C S True =
          DecryptUpdate env (Reset (m_decryptHelper e)) (packet_ctx dc False S True)
             (replicate (length C) 0) 0 C 0 (int (length C))
          \<bind> (\<lambda>(r, h1, c3, out1, len1). DecryptFinalRelaxed env h1 c3 out1 len1
          \<bind> (\<lambda>(r2, h2, c4, out2, len2).
             Some (SetSize out2 (len1 + len2), False,
                e\<lparr>m_decryptCtx := Some c4, m_decryptHelper := h2,
                  m_operationCnt := m_operationCnt e + 1\<rparr>)))"
    by (rule Decrypt_start [where env = env and C = C and pad = True]) simp
  let ?c = "packet_ctx dc False S True"
  let ?h = "Reset (m_decryptHelper e)"
  let ?R = "cbc_decrypt (decrypt_block env k) (tiled_iv S) C q"
  have hb: "16 \<le> length (buf ?h)" "16 \<le> length (final_buf ?h)"
    using k by (auto elim: engine_keyedD)
  have R: "ctx_cbc env ?c C q = ?R"
    by (simp add: ctx_cbc_decrypt dc)
  have lR: "length (fst ?R) = 16 * q"
    using ctx_cbc_length(1) [of env ?c q C] ok S len by (simp add: dc R)
  have up: "DecryptUpdate env ?h ?c (replicate (length C) 0) (int 0) C 0 (int (16 * q + r)) =
           Some (1,
                 ?h\<lparr>buf := take r (drop (16 * q) C) @ drop r (buf ?h), buf_len := int r\<rparr>,
                 ?c\<lparr>ctx_iv := snd (ctx_cbc env ?c C q)\<rparr>,
                 take 0 (replicate (length C) 0) @ fst (ctx_cbc env ?c C q)
                   @ drop (0 + 16 * q) (replicate (length C) 0),
                 int (16 * q))"
    using dc ok S hb len r by (intro DecryptUpdate_padded_unaligned) simp_all
  have sz: "SetSize (fst ?R @ drop (16 * q) (replicate (length C) 0)) (int (16 * q)) = fst ?R"
    using SetSize_take [of "16 * q" "fst ?R @ drop (16 * q) (replicate (length C) 0)"] lR
    by simp
  show ?thesis
    using up sz r(1)
    by (simp add: st len R DecryptFinalRelaxed_wrong_length [where ci = dci] dc
        del: of_nat_add of_nat_mult)
qed

section \<open>Decrypt: the other paths\<close>

lemma take_take_drop: "take a xs @ take b (drop a xs) @ drop (a + b) xs = xs"
proof -
  have "take (a + b) xs = take a xs @ take b (drop a xs)" by (rule take_add)
  then have "take a xs @ take b (drop a xs) @ drop (a + b) xs = take (a + b) xs @ drop (a + b) xs"
    by simp
  then show ?thesis by simp
qed

lemma bad_pad_uint:
  assumes "unat (w :: byte) = 0 \<or> 16 < unat w"
  shows "uint w = 0 \<or> 16 < uint w"
proof -
  have "uint w = int (unat w)" by (rule uint_nat)
  with assms show ?thesis by linarith
qed

lemma Decrypt_padded_empty:
  assumes k: "engine_keyed k e" and S: "seed_ok S"
  shows "\<exists>e'. Decrypt env e [] S True = Some ([], False, e')"
proof -
  from k S obtain dc dci where dc: "m_decryptCtx e = Some dc" "ctx_cipher dc = Some dci"
    "ctx_key dc = k"
    and st: "Decrypt env e [] S True =
          DecryptUpdate env (Reset (m_decryptHelper e)) (packet_ctx dc False S True)
             (replicate (length ([]::bytes)) 0) 0 [] 0 (int (length ([]::bytes)))
          \<bind> (\<lambda>(r, h1, c3, out1, len1). DecryptFinalRelaxed env h1 c3 out1 len1
          \<bind> (\<lambda>(r2, h2, c4, out2, len2).
             Some (SetSize out2 (len1 + len2), False,
                e\<lparr>m_decryptCtx := Some c4, m_decryptHelper := h2,
                  m_operationCnt := m_operationCnt e + 1\<rparr>)))"
    by (rule Decrypt_start [where env = env and C = "[]" and pad = True]) simp
  show ?thesis
    by (simp add: st DecryptUpdate_zero DecryptFinalRelaxed_wrong_length [where ci = dci] dc
        SetSize_def)
qed

lemma Decrypt_padded_aligned:
  assumes k: "engine_keyed k e" and ok: "block_cipher_ok env k" and S: "seed_ok S"
    and len: "length C = 16 * Suc m"
    and n: "n = unat (fst (cbc_decrypt (decrypt_block env k) (tiled_iv S) C (Suc m)) ! (16 * m + 15))"
  shows "\<exists>e'. Decrypt env e C S True =
           Some (if n = 0 \<or> 16 < n
                 then take (16 * m) (fst (cbc_decrypt (decrypt_block env k) (tiled_iv S) C (Suc m)))
                 else take (16 * Suc m - n)
                        (fst (cbc_decrypt (decrypt_block env k) (tiled_iv S) C (Suc m))),
                 False, e')"
proof -
  from k S obtain dc dci where dc: "m_decryptCtx e = Some dc" "ctx_cipher dc = Some dci"
    "ctx_key dc = k"
    and st: "Decrypt env e C S True =
          DecryptUpdate env (Reset (m_decryptHelper e)) (packet_ctx dc False S True)
             (replicate (length C) 0) 0 C 0 (int (length C))
          \<bind> (\<lambda>(r, h1, c3, out1, len1). DecryptFinalRelaxed env h1 c3 out1 len1
          \<bind> (\<lambda>(r2, h2, c4, out2, len2).
             Some (SetSize out2 (len1 + len2), False,
                e\<lparr>m_decryptCtx := Some c4, m_decryptHelper := h2,
                  m_operationCnt := m_operationCnt e + 1\<rparr>)))"
    by (rule Decrypt_start [where env = env and C = C and pad = True]) simp
  let ?c = "packet_ctx dc False S True"
  let ?h = "Reset (m_decryptHelper e)"
  let ?R = "cbc_decrypt (decrypt_block env k) (tiled_iv S) C (Suc m)"
  let ?pl = "fst ?R"
  let ?h1 = "?h\<lparr>final_used := 1, final_buf := drop (16 * m) ?pl @ drop 16 (final_buf ?h)\<rparr>"
  let ?c1 = "?c\<lparr>ctx_iv := snd ?R\<rparr>"
  have hb: "16 \<le> length (buf ?h)" "16 \<le> length (final_buf ?h)"
    using k by (auto elim: engine_keyedD)
  have R: "ctx_cbc env ?c C (Suc m) = ?R"
    by (simp add: ctx_cbc_decrypt dc)
  have lR: "length ?pl = 16 * Suc m"
    using ctx_cbc_length(1) [of env ?c "Suc m" C] ok S len by (simp add: dc R)
  have "DecryptUpdate env ?h ?c (replicate (length C) 0) (int 0) C 0 (int (16 * Suc m)) =
           Some (1,
                 ?h\<lparr>final_used := 1,
                   final_buf := drop (16 * m) (fst (ctx_cbc env ?c C (Suc m))) @ drop 16 (final_buf ?h)\<rparr>,
                 ?c\<lparr>ctx_iv := snd (ctx_cbc env ?c C (Suc m))\<rparr>,
                 take 0 (replicate (length C) 0) @ fst (ctx_cbc env ?c C (Suc m))
                   @ drop (0 + 16 * Suc m) (replicate (length C) 0),
                 int (16 * m))"
    using dc ok S hb len by (intro DecryptUpdate_padded_aligned) simp_all
  then have up: "DecryptUpdate env ?h ?c (replicate (length C) 0) 0 C 0 (int (length C)) =
           Some (1, ?h1, ?c1, ?pl, int (16 * m))"
    by (simp add: R len del: of_nat_mult of_nat_Suc mult_Suc_right)
  have lb: "final_buf ?h1 ! 15 = ?pl ! (16 * m + 15)"
    using lR by (simp add: nth_append)
  have h1: "buf_len ?h1 = 0" "final_used ?h1 \<noteq> 0" "16 \<le> length (final_buf ?h1)"
    "ctx_cipher ?c1 = Some dci" "\<not> ctx_no_padding ?c1"
    using lR hb dc by simp_all
  show ?thesis
  proof (cases "n = 0 \<or> 16 < n")
    case True
    then have "uint (?pl ! (16 * m + 15)) = 0 \<or> uint (?pl ! (16 * m + 15)) > 16"
      unfolding n by (rule bad_pad_uint)
    then have "uint (final_buf ?h1 ! 15) = 0 \<or> uint (final_buf ?h1 ! 15) > 16"
      by (simp only: lb)
    then have fin: "DecryptFinalRelaxed env ?h1 ?c1 ?pl (int (16 * m)) = Some (0, ?h1, ?c1, ?pl, 0)"
      using h1 by (intro DecryptFinalRelaxed_bad [where ci = dci])
    have sz: "SetSize ?pl (int (16 * m)) = take (16 * m) ?pl"
      using lR by (intro SetSize_take) simp
    show ?thesis
      using True by (simp only: st up bind.bind_lunit case_prod_conv fin add_0_right sz if_True) simp
  next
    case False
    then have n16: "0 < n" "n \<le> 16" by auto
    have u: "unat (final_buf ?h1 ! 15) = n" by (simp only: lb n)
    have fin: "DecryptFinalRelaxed env ?h1 ?c1 ?pl (int (16 * m)) =
           Some (1, ?h1, ?c1,
                 take (16 * m) ?pl @ take (16 - n) (final_buf ?h1) @ drop (16 * m + (16 - n)) ?pl,
                 int (16 - n))"
      using h1 u n16 lR by (intro DecryptFinalRelaxed_good [where ci = dci]) simp_all
    have tf: "take (16 - n) (final_buf ?h1) = take (16 - n) (drop (16 * m) ?pl)"
      using lR by simp
    have same: "take (16 * m) ?pl @ take (16 - n) (final_buf ?h1) @ drop (16 * m + (16 - n)) ?pl = ?pl"
      unfolding tf by (rule take_take_drop)
    have ix: "int (16 * m) + int (16 - n) = int (16 * Suc m - n)" using n16 by simp
    have sz: "SetSize ?pl (int (16 * Suc m - n)) = take (16 * Suc m - n) ?pl"
      using lR by (intro SetSize_take) simp
    show ?thesis
      using False
      by (simp only: st up bind.bind_lunit case_prod_conv fin same ix sz if_False) simp
  qed
qed

lemma Decrypt_unpadded_aligned:
  assumes k: "engine_keyed k e" and ok: "block_cipher_ok env k" and S: "seed_ok S"
    and len: "length C = 16 * q"
  shows "\<exists>e'. Decrypt env e C S False =
           Some (fst (cbc_decrypt (decrypt_block env k) (tiled_iv S) C q), False, e')"
proof -
  from k S obtain dc dci where dc: "m_decryptCtx e = Some dc" "ctx_cipher dc = Some dci"
    "ctx_key dc = k"
    and st0: "Decrypt env e C S False =
       (if \<not> False \<and> int (length C) mod 16 > 0 then
          DecryptUpdateCTS env (Reset (m_decryptHelper e)) (packet_ctx dc False S False)
             (replicate (length C) 0) 0 C 0 (int (length C))
          \<bind> (\<lambda>(r, h1, c3, out1, len1). DecryptFinalCTS env h1 c3 out1 len1
          \<bind> (\<lambda>(r2, h2, c4, out2, len2).
             Some (SetSize out2 (len1 + len2), False,
                e\<lparr>m_decryptCtx := Some c4, m_decryptHelper := h2,
                  m_operationCnt := m_operationCnt e + 1\<rparr>)))
        else
          DecryptUpdate env (Reset (m_decryptHelper e)) (packet_ctx dc False S False)
             (replicate (length C) 0) 0 C 0 (int (length C))
          \<bind> (\<lambda>(r, h1, c3, out1, len1). DecryptFinalRelaxed env h1 c3 out1 len1
          \<bind> (\<lambda>(r2, h2, c4, out2, len2).
             Some (SetSize out2 (len1 + len2), False,
                e\<lparr>m_decryptCtx := Some c4, m_decryptHelper := h2,
                  m_operationCnt := m_operationCnt e + 1\<rparr>))))"
    by (rule Decrypt_start [where env = env and C = C and pad = False])
  have md: "\<not> (\<not> False \<and> int (length C) mod 16 > 0)" by (simp add: len)
  note st = st0 [unfolded if_not_P [OF md]]
  let ?c = "packet_ctx dc False S False"
  let ?h = "Reset (m_decryptHelper e)"
  let ?R = "cbc_decrypt (decrypt_block env k) (tiled_iv S) C q"
  show ?thesis
  proof (cases "q = 0")
    case True
    then have "C = []" using len by simp
    then show ?thesis
      unfolding st using True
      by (simp add: DecryptUpdate_zero DecryptFinalRelaxed_no_padding SetSize_def)
  next
    case False
    have hb: "16 \<le> length (buf ?h)"
      using k by (auto elim: engine_keyedD)
    have R: "ctx_cbc env ?c C q = ?R"
      by (simp add: ctx_cbc_decrypt dc)
    have lR: "length (fst ?R) = 16 * q"
      using ctx_cbc_length(1) [of env ?c q C] ok S len by (simp add: dc R)
    have "EncryptUpdate env ?h ?c (replicate (length C) 0) (int 0) C 0 (int (16 * q + 0)) =
           Some (1,
                 ?h\<lparr>buf := (if (0::nat) = 0 then buf ?h else take 0 (drop (16 * q) C) @ drop 0 (buf ?h)),
                   buf_len := int 0\<rparr>,
                 ?c\<lparr>ctx_iv := snd (ctx_cbc env ?c C q)\<rparr>,
                 take 0 (replicate (length C) 0) @ fst (ctx_cbc env ?c C q)
                   @ drop (0 + 16 * q) (replicate (length C) 0),
                 int (16 * q))"
      using dc ok S hb len False by (intro EncryptUpdate_from_empty) simp_all
    then have up: "DecryptUpdate env ?h ?c (replicate (length C) 0) 0 C 0 (int (length C)) =
           Some (1, ?h, ?c\<lparr>ctx_iv := snd ?R\<rparr>, fst ?R, int (16 * q))"
      using False by (simp add: DecryptUpdate_no_padding R len Reset_def del: of_nat_mult)
    have sz: "SetSize (fst ?R) (int (16 * q)) = fst ?R"
      using SetSize_take [of "16 * q" "fst ?R"] lR by simp
    show ?thesis
      using sz by (simp add: st up DecryptFinalRelaxed_no_padding del: of_nat_mult)
  qed
qed

section \<open>The update and final of the library\<close>

lemma cbc_encrypt_append:
  "length d1 = 16 * q \<Longrightarrow>
   cbc_encrypt E v (d1 @ d2) (q + n) =
     (fst (cbc_encrypt E v d1 q) @ fst (cbc_encrypt E (snd (cbc_encrypt E v d1 q)) d2 n),
      snd (cbc_encrypt E (snd (cbc_encrypt E v d1 q)) d2 n))"
proof (induction q arbitrary: v d1)
  case 0 then show ?case by simp
next
  case (Suc q)
  have l: "length (drop 16 d1) = 16 * q" using Suc.prems by simp
  have t: "take 16 (d1 @ d2) = take 16 d1" "drop 16 (d1 @ d2) = drop 16 d1 @ d2"
    using Suc.prems by simp_all
  show ?case
    by (simp only: add_Suc cbc_encrypt.simps Let_def t Suc.IH [OF l] fst_conv snd_conv
        append_assoc)
qed

lemma EVP_EncryptUpdate_zero:
  "EVP_EncryptUpdate env c out op inp ip 0 = Some (1, c, out, 0)"
  by (simp add: EVP_EncryptUpdate_def)

lemma ctx_eq_self: "ctx_buf_len c = 0 \<Longrightarrow> c\<lparr>ctx_buf := ctx_buf c, ctx_buf_len := 0\<rparr> = c"
  by simp

lemma EVP_EncryptUpdate_from_empty:
  assumes ci: "ctx_cipher c = Some ci" and ok: "block_cipher_ok env (ctx_key c)"
    and iv: "length (ctx_iv c) = 16"
    and bl: "16 \<le> length (ctx_buf c)" and empty: "ctx_buf_len c = 0"
    and inp: "length inp = 16 * q + r" and r: "r < 16" and pos: "0 < 16 * q + r"
    and out: "op + 16 * q \<le> length out"
  shows "EVP_EncryptUpdate env c out (int op) inp 0 (int (16 * q + r)) =
           Some (1,
                 c\<lparr>ctx_iv := snd (ctx_cbc env c inp q),
                   ctx_buf := (if r = 0 then ctx_buf c
                               else take r (drop (16 * q) inp) @ drop r (ctx_buf c)),
                   ctx_buf_len := int r\<rparr>,
                 take op out @ fst (ctx_cbc env c inp q) @ drop (op + 16 * q) out,
                 int (16 * q))"
proof -
  have cip: "EVP_Cipher env c out (int op) inp 0 (int (16 * q)) =
           Some (1, c\<lparr>ctx_iv := snd (ctx_cbc env c inp q)\<rparr>,
                 take op out @ fst (ctx_cbc env c inp q) @ drop (op + 16 * q) out)"
    using EVP_Cipher_blocks [OF ci ok iv, of 0 q inp op out] inp out by simp
  have cp: "r \<noteq> 0 \<Longrightarrow> memcpy (ctx_buf c) 0 inp (int (16 * q)) (int r) =
              Some (take r (drop (16 * q) inp) @ drop r (ctx_buf c))"
    using memcpy_at [of "16 * q" r inp 0 "ctx_buf c"] inp bl r by simp
  have "0 < int (16 * q + r)" using pos by (simp only: of_nat_0_less_iff)
  then have pos': "\<not> int (16 * q + r) \<le> 0" by linarith
  show ?thesis
  proof (cases "r = 0")
    case True
    then show ?thesis
      using empty cip pos
      by (simp add: EVP_EncryptUpdate_def block_size_16 [OF ci] and_15)
  next
    case False
    show ?thesis
    proof (cases "q = 0")
      case True
      then show ?thesis
        using False empty cp r
        by (simp add: EVP_EncryptUpdate_def block_size_16 [OF ci] and_15)
    next
      case q: False
      then show ?thesis
        using False empty cp cip r
        by (simp add: EVP_EncryptUpdate_def block_size_16 [OF ci] and_15)
    qed
  qed
qed

lemma EVP_EncryptFinal_ex_no_padding:
  "ctx_cipher c = Some ci \<Longrightarrow> ctx_no_padding c \<Longrightarrow> ctx_buf_len c = 0 \<Longrightarrow>
   EVP_EncryptFinal_ex env c out op outl0 = Some (1, c, out, 0)"
  by (simp add: EVP_EncryptFinal_ex_def block_size_16)

lemma EVP_EncryptFinal_ex_padding:
  assumes ci: "ctx_cipher c = Some ci" and ok: "block_cipher_ok env (ctx_key c)"
    and iv: "length (ctx_iv c) = 16" and pad: "\<not> ctx_no_padding c"
    and bl: "16 \<le> length (ctx_buf c)" and r: "ctx_buf_len c = int r" "r < 16"
    and out: "op + 16 \<le> length out"
  shows "EVP_EncryptFinal_ex env c out (int op) outl0 =
           Some (1,
                 c\<lparr>ctx_buf := take r (ctx_buf c) @ replicate (16 - r) (word_of_nat (16 - r))
                                @ drop 16 (ctx_buf c),
                   ctx_iv := snd (ctx_cbc env c
                     (take r (ctx_buf c) @ replicate (16 - r) (word_of_nat (16 - r))) 1)\<rparr>,
                 take op out
                   @ fst (ctx_cbc env c
                       (take r (ctx_buf c) @ replicate (16 - r) (word_of_nat (16 - r))) 1)
                   @ drop (op + 16) out,
                 16)"
proof -
  let ?v = "word_of_nat (16 - r) :: byte"
  let ?p = "take r (ctx_buf c) @ replicate (16 - r) ?v @ drop 16 (ctx_buf c)"
  let ?c' = "c\<lparr>ctx_buf := ?p\<rparr>"
  have n: "16 - int r = int (16 - r)" using r(2) by simp
  have v: "(word_of_int (int (16 - r)) :: byte) = ?v" by simp
  have "mem_write (ctx_buf c) (int r) (replicate (16 - r) ?v) =
          Some (take r (ctx_buf c) @ replicate (16 - r) ?v
                @ drop (r + length (replicate (16 - r) ?v)) (ctx_buf c))"
    using bl r(2) by (intro mem_write_at) simp
  then have ms: "memset (ctx_buf c) (int r) ?v (int (16 - r)) = Some ?p"
    using r(2) by (simp only: memset_def nat_int of_nat_less_0_iff if_False) simp
  have t16: "take (16 * 1) (drop 0 ?p) = take r (ctx_buf c) @ replicate (16 - r) ?v"
    using bl r(2) by (simp add: min_absorb2)
  have cbc: "ctx_cbc env ?c' (drop 0 ?p) 1
               = ctx_cbc env c (take r (ctx_buf c) @ replicate (16 - r) ?v) 1"
    by (subst ctx_cbc_take [symmetric], subst t16) (simp add: ctx_cbc_def)
  have "EVP_Cipher env ?c' out (int op) ?p (int 0) (int (16 * 1)) =
           Some (1, ?c'\<lparr>ctx_iv := snd (ctx_cbc env ?c' (drop 0 ?p) 1)\<rparr>,
                 take op out @ fst (ctx_cbc env ?c' (drop 0 ?p) 1) @ drop (op + 16 * 1) out)"
    using ci ok iv bl r(2) out by (intro EVP_Cipher_blocks [where ci = ci]) simp_all
  then have cip: "EVP_Cipher env ?c' out (int op) ?p 0 16 =
           Some (1, ?c'\<lparr>ctx_iv := snd (ctx_cbc env c (take r (ctx_buf c) @ replicate (16 - r) ?v) 1)\<rparr>,
                 take op out @ fst (ctx_cbc env c (take r (ctx_buf c) @ replicate (16 - r) ?v) 1)
                   @ drop (op + 16) out)"
    by (simp only: cbc) simp
  show ?thesis
    using pad
    by (simp only: EVP_EncryptFinal_ex_def block_size_16 [OF ci] bind.bind_lunit r(1) n v ms
        Let_def cip case_prod_conv if_False simp_thms) simp
qed

section \<open>Encrypt\<close>

lemma Encrypt_start:
  assumes k: "engine_keyed k e" and S: "seed_ok S"
  obtains ec eci where "m_encryptCtx e = Some ec" "ctx_cipher ec = Some eci" "ctx_key ec = k"
    "length (ctx_buf ec) = 32"
    "Encrypt env e P S padIn =
       EVP_EncryptUpdate env (packet_ctx ec True S (length P mod 16 \<noteq> 0))
          (replicate (length P + 16) 0) 0 P 0 (int (length P))
       \<bind> (\<lambda>(r, c3, out1, len1). EVP_EncryptFinal_ex env c3 out1 len1 0
       \<bind> (\<lambda>(r2, c4, out2, len2).
          Some (SetSize out2 (len1 + len2), length P mod 16 \<noteq> 0,
                e\<lparr>m_encryptCtx := Some c4, m_encryptHelper := Reset (m_encryptHelper e),
                  m_operationCnt := m_operationCnt e + 1\<rparr>)))"
proof -
  from k obtain ec eci where d: "m_initialised e" "m_enc_blockSize e = 16" "m_enc_ivLength e = 16"
    "m_encryptCtx e = Some ec" "ctx_cipher ec = Some eci" "ctx_key ec = k" "length (ctx_buf ec) = 32"
    by (rule engine_keyedD)
  have iv: "SetIV (replicate EVP_MAX_IV_LENGTH 0) S 16 = Some (tiled_iv S)"
    using SetIV_tiled [OF S, of "replicate 16 0"] by (simp add: EVP_MAX_IV_LENGTH_def)
  have init: "EVP_CipherInit_ex ec None None (Some (tiled_iv S)) True =
     Some (ec\<lparr>ctx_encrypt := True, ctx_oiv := tiled_iv S, ctx_iv := tiled_iv S, ctx_buf_len := 0\<rparr>)"
    using d(5) S by (simp add: EVP_CipherInit_ex_iv)
  have "int (length P) mod 16 = int (length P mod 16)" by (simp add: zmod_int)
  then have md: "(0 < int (length P) mod 16) = (length P mod 16 \<noteq> 0)"
    by (simp only: of_nat_0_less_iff) simp
  have ln: "nat (int (length P) + 16) = length P + 16" by simp
  have "Encrypt env e P S padIn =
       EVP_EncryptUpdate env (packet_ctx ec True S (length P mod 16 \<noteq> 0))
          (replicate (length P + 16) 0) 0 P 0 (int (length P))
       \<bind> (\<lambda>(r, c3, out1, len1). EVP_EncryptFinal_ex env c3 out1 len1 0
       \<bind> (\<lambda>(r2, c4, out2, len2).
          Some (SetSize out2 (len1 + len2), length P mod 16 \<noteq> 0,
                e\<lparr>m_encryptCtx := Some c4, m_encryptHelper := Reset (m_encryptHelper e),
                  m_operationCnt := m_operationCnt e + 1\<rparr>)))"
    unfolding Encrypt_def
    by (simp add: d iv init Let_def PBYTEArray_def packet_ctx_def EVP_CIPHER_CTX_set_padding_def
        split_def md ln del: of_nat_mod of_nat_add cong: if_cong) (intro impI, elim conjE, linarith)
  with d show ?thesis by (rule_tac that)
qed

lemma Encrypt_aligned:
  assumes k: "engine_keyed k e" and ok: "block_cipher_ok env k" and S: "seed_ok S"
    and len: "length P = 16 * q"
  shows "\<exists>e'. Encrypt env e P S padIn =
           Some (fst (cbc_encrypt (encrypt_block env k) (tiled_iv S) P q), False, e')
         \<and> engine_keyed k e'"
proof -
  from k S obtain ec eci where ec: "m_encryptCtx e = Some ec" "ctx_cipher ec = Some eci"
    "ctx_key ec = k" "length (ctx_buf ec) = 32"
    and st: "Encrypt env e P S padIn =
       EVP_EncryptUpdate env (packet_ctx ec True S (length P mod 16 \<noteq> 0))
          (replicate (length P + 16) 0) 0 P 0 (int (length P))
       \<bind> (\<lambda>(r, c3, out1, len1). EVP_EncryptFinal_ex env c3 out1 len1 0
       \<bind> (\<lambda>(r2, c4, out2, len2).
          Some (SetSize out2 (len1 + len2), length P mod 16 \<noteq> 0,
                e\<lparr>m_encryptCtx := Some c4, m_encryptHelper := Reset (m_encryptHelper e),
                  m_operationCnt := m_operationCnt e + 1\<rparr>)))"
    by (rule Encrypt_start [where env = env and P = P and padIn = padIn])
  have md: "length P mod 16 = 0" by (simp add: len)
  let ?c = "packet_ctx ec True S False"
  let ?R = "cbc_encrypt (encrypt_block env k) (tiled_iv S) P q"
  have kk: "engine_keyed k (e\<lparr>m_encryptCtx := Some (c'\<lparr>ctx_iv := v\<rparr>),
                m_encryptHelper := Reset (m_encryptHelper e),
                m_operationCnt := m_operationCnt e + 1\<rparr>)"
    if "ctx_cipher c' = Some eci" "ctx_key c' = k" "length (ctx_buf c') = 32" for c' v
    using k that by (simp add: engine_keyed_def)
  show ?thesis
  proof (cases "q = 0")
    case True
    then have P: "P = []" using len by simp
    have kk0: "engine_keyed k (e\<lparr>m_encryptCtx := Some ?c,
                m_encryptHelper := Reset (m_encryptHelper e),
                m_operationCnt := m_operationCnt e + 1\<rparr>)"
      using k ec by (simp add: engine_keyed_def)
    show ?thesis
      unfolding st using True kk0
      by (simp add: P EVP_EncryptUpdate_zero EVP_EncryptFinal_ex_no_padding [where ci = eci] ec
          SetSize_def)
  next
    case False
    have R: "ctx_cbc env ?c P q = ?R"
      by (simp add: ctx_cbc_encrypt ec)
    have lR: "length (fst ?R) = 16 * q"
      using ctx_cbc_length(1) [of env ?c q P] ok S len by (simp add: ec R)
    have "EVP_EncryptUpdate env ?c (replicate (length P + 16) 0) (int 0) P 0 (int (16 * q + 0)) =
           Some (1,
                 ?c\<lparr>ctx_iv := snd (ctx_cbc env ?c P q),
                   ctx_buf := (if (0::nat) = 0 then ctx_buf ?c
                               else take 0 (drop (16 * q) P) @ drop 0 (ctx_buf ?c)),
                   ctx_buf_len := int 0\<rparr>,
                 take 0 (replicate (length P + 16) 0) @ fst (ctx_cbc env ?c P q)
                   @ drop (0 + 16 * q) (replicate (length P + 16) 0),
                 int (16 * q))"
      using ec ok S len False by (intro EVP_EncryptUpdate_from_empty) simp_all
    then have up: "EVP_EncryptUpdate env ?c (replicate (length P + 16) 0) 0 P 0 (int (length P)) =
           Some (1, ?c\<lparr>ctx_iv := snd ?R\<rparr>, fst ?R @ replicate 16 0, int (16 * q))"
      unfolding R by (simp add: len packet_ctx_def del: of_nat_mult)
    have sz: "SetSize (fst ?R @ replicate 16 0) (int (16 * q)) = fst ?R"
      using SetSize_take [of "16 * q" "fst ?R @ replicate 16 0"] lR by simp
    have fin: "EVP_EncryptFinal_ex env (?c\<lparr>ctx_iv := snd ?R\<rparr>) out op 0 =
                 Some (1, ?c\<lparr>ctx_iv := snd ?R\<rparr>, out, 0)" for out op
      using ec by (intro EVP_EncryptFinal_ex_no_padding [where ci = eci]) simp_all
    have kk1: "engine_keyed k (e\<lparr>m_encryptCtx := Some (?c\<lparr>ctx_iv := snd ?R\<rparr>),
                m_encryptHelper := Reset (m_encryptHelper e),
                m_operationCnt := m_operationCnt e + 1\<rparr>)"
      using ec by (intro kk) simp_all
    show ?thesis
      unfolding st md using kk1
      by (simp only: simp_thms up bind.bind_lunit case_prod_conv fin add_0_right sz) simp
  qed
qed

lemma Encrypt_unaligned:
  assumes k: "engine_keyed k e" and ok: "block_cipher_ok env k" and S: "seed_ok S"
    and len: "length P = 16 * q + r" and r: "0 < r" "r < 16"
  shows "\<exists>e'. Encrypt env e P S padIn =
           Some (fst (cbc_encrypt (encrypt_block env k) (tiled_iv S)
                        (P @ replicate (16 - r) (word_of_nat (16 - r))) (Suc q)), True, e')
         \<and> engine_keyed k e'"
proof -
  from k S obtain ec eci where ec: "m_encryptCtx e = Some ec" "ctx_cipher ec = Some eci"
    "ctx_key ec = k" "length (ctx_buf ec) = 32"
    and st: "Encrypt env e P S padIn =
       EVP_EncryptUpdate env (packet_ctx ec True S (length P mod 16 \<noteq> 0))
          (replicate (length P + 16) 0) 0 P 0 (int (length P))
       \<bind> (\<lambda>(r, c3, out1, len1). EVP_EncryptFinal_ex env c3 out1 len1 0
       \<bind> (\<lambda>(r2, c4, out2, len2).
          Some (SetSize out2 (len1 + len2), length P mod 16 \<noteq> 0,
                e\<lparr>m_encryptCtx := Some c4, m_encryptHelper := Reset (m_encryptHelper e),
                  m_operationCnt := m_operationCnt e + 1\<rparr>)))"
    by (rule Encrypt_start [where env = env and P = P and padIn = padIn])
  have md: "(length P mod 16 \<noteq> 0) = True" using r by (simp add: len)
  let ?E = "encrypt_block env k"
  let ?v = "word_of_nat (16 - r) :: byte"
  let ?c = "packet_ctx ec True S True"
  let ?R1 = "cbc_encrypt ?E (tiled_iv S) P q"
  let ?B = "take r (drop (16 * q) P) @ drop r (ctx_buf ec)"
  let ?c1 = "?c\<lparr>ctx_iv := snd ?R1, ctx_buf := ?B, ctx_buf_len := int r\<rparr>"
  let ?last = "drop (16 * q) P @ replicate (16 - r) ?v"
  let ?R2 = "cbc_encrypt ?E (snd ?R1) ?last 1"
  let ?out1 = "fst ?R1 @ replicate (r + 16) 0"
  have R: "ctx_cbc env ?c P q = ?R1"
    by (simp add: ctx_cbc_encrypt ec)
  have lR: "length (fst ?R1) = 16 * q" and lv: "length (snd ?R1) = 16"
    using ctx_cbc_length [of env ?c q P] ok S len by (simp_all add: ec R)
  have "EVP_EncryptUpdate env ?c (replicate (length P + 16) 0) (int 0) P 0 (int (16 * q + r)) =
           Some (1,
                 ?c\<lparr>ctx_iv := snd (ctx_cbc env ?c P q),
                   ctx_buf := (if r = 0 then ctx_buf ?c
                               else take r (drop (16 * q) P) @ drop r (ctx_buf ?c)),
                   ctx_buf_len := int r\<rparr>,
                 take 0 (replicate (length P + 16) 0) @ fst (ctx_cbc env ?c P q)
                   @ drop (0 + 16 * q) (replicate (length P + 16) 0),
                 int (16 * q))"
    using ec ok S len r by (intro EVP_EncryptUpdate_from_empty) simp_all
  then have up: "EVP_EncryptUpdate env ?c (replicate (length P + 16) 0) 0 P 0 (int (length P)) =
           Some (1, ?c1, ?out1, int (16 * q))"
    using r by (simp add: R len del: of_nat_mult of_nat_add)
  have tB: "take r (ctx_buf ?c1) @ replicate (16 - r) ?v = ?last"
    using len r by simp
  have R2: "ctx_cbc env ?c1 ?last 1 = ?R2"
    by (simp add: ctx_cbc_def ec)
  have "EVP_EncryptFinal_ex env ?c1 ?out1 (int (16 * q)) 0 =
           Some (1,
                 ?c1\<lparr>ctx_buf := take r (ctx_buf ?c1) @ replicate (16 - r) (word_of_nat (16 - r))
                                @ drop 16 (ctx_buf ?c1),
                   ctx_iv := snd (ctx_cbc env ?c1
                     (take r (ctx_buf ?c1) @ replicate (16 - r) (word_of_nat (16 - r))) 1)\<rparr>,
                 take (16 * q) ?out1
                   @ fst (ctx_cbc env ?c1
                       (take r (ctx_buf ?c1) @ replicate (16 - r) (word_of_nat (16 - r))) 1)
                   @ drop (16 * q + 16) ?out1,
                 16)"
    using ec ok S lv lR r len by (intro EVP_EncryptFinal_ex_padding [where ci = eci]) simp_all
  then have fin: "EVP_EncryptFinal_ex env ?c1 ?out1 (int (16 * q)) 0 =
           Some (1,
                 ?c1\<lparr>ctx_buf := take r (ctx_buf ?c1) @ replicate (16 - r) ?v
                                @ drop 16 (ctx_buf ?c1),
                   ctx_iv := snd ?R2\<rparr>,
                 take (16 * q) ?out1 @ fst ?R2 @ drop (16 * q + 16) ?out1,
                 16)"
    by (simp only: tB R2)
  have l2: "length (fst ?R2) = 16"
    using cbc_encrypt_length [of ?E "snd ?R1" 1 ?last] ok lv len r
    by (simp add: block_cipher_ok_def)
  have sz: "SetSize (take (16 * q) ?out1 @ fst ?R2 @ drop (16 * q + 16) ?out1) (int (16 * q) + 16)
              = fst ?R1 @ fst ?R2"
    using lR l2 by (simp add: SetSize_def)
  have "cbc_encrypt ?E (tiled_iv S) (take (16 * q) P @ ?last) (q + 1) =
          (fst (cbc_encrypt ?E (tiled_iv S) (take (16 * q) P) q)
             @ fst (cbc_encrypt ?E (snd (cbc_encrypt ?E (tiled_iv S) (take (16 * q) P) q)) ?last 1),
           snd (cbc_encrypt ?E (snd (cbc_encrypt ?E (tiled_iv S) (take (16 * q) P) q)) ?last 1))"
    using len by (intro cbc_encrypt_append) simp
  then have whole: "fst (cbc_encrypt ?E (tiled_iv S) (P @ replicate (16 - r) ?v) (Suc q))
                      = fst ?R1 @ fst ?R2"
    by (simp only: cbc_encrypt_take append_assoc [symmetric] append_take_drop_id Suc_eq_plus1
        fst_conv)
  have kk: "engine_keyed k (e\<lparr>m_encryptCtx :=
                Some (?c1\<lparr>ctx_buf := take r (ctx_buf ?c1) @ replicate (16 - r) ?v
                                @ drop 16 (ctx_buf ?c1),
                        ctx_iv := snd ?R2\<rparr>),
                m_encryptHelper := Reset (m_encryptHelper e),
                m_operationCnt := m_operationCnt e + 1\<rparr>)"
    using k ec len r by (simp add: engine_keyed_def)
  show ?thesis
    unfolding st md whole using kk
    by (simp only: up bind.bind_lunit case_prod_conv fin sz) simp
qed

section \<open>Installing a key\<close>

lemma ctx_fresh:
  "(case x of None \<Rightarrow> EVP_CIPHER_CTX_new | Some c \<Rightarrow> EVP_CIPHER_CTX_reset c) = EVP_CIPHER_CTX_new"
  by (cases x) (simp_all add: EVP_CIPHER_CTX_reset_def)

text \<open>The context \<^verbatim>\<open>SetKey\<close> builds for one direction.\<close>

lemma EVP_CipherInit_ex_key:
  assumes "EVP_CIPHER_key_length ci \<le> int (length key)"
  shows "EVP_CipherInit_ex EVP_CIPHER_CTX_new (Some ci) (Some key) None enc =
          Some (EVP_CIPHER_CTX_new\<lparr>ctx_cipher := Some ci, ctx_encrypt := enc,
                  ctx_key := take (nat (EVP_CIPHER_key_length ci)) key\<rparr>)"
proof -
  have kl: "0 \<le> EVP_CIPHER_key_length ci" by (cases ci) simp_all
  have rd: "mem_read key 0 (EVP_CIPHER_key_length ci) = Some (take (nat (EVP_CIPHER_key_length ci)) key)"
    using assms kl by (simp add: mem_read_def)
  show ?thesis
    by (simp add: EVP_CipherInit_ex_def rd) (simp add: EVP_CIPHER_CTX_new_def)
qed

lemma SetKey_supported:
  assumes "SetKey_cipher env (m_algorithmOID e) = Some ci"
    and "EVP_CIPHER_key_length ci \<le> int (length key)"
  shows "SetKey env key e =
           Some (e\<lparr>m_encryptCtx := Some (EVP_CIPHER_CTX_new\<lparr>ctx_cipher := Some ci,
                      ctx_encrypt := True, ctx_key := take (nat (EVP_CIPHER_key_length ci)) key\<rparr>),
                   m_enc_blockSize := 16, m_enc_ivLength := 16,
                   m_encryptHelper := Reset (m_encryptHelper e),
                   m_decryptCtx := Some (EVP_CIPHER_CTX_new\<lparr>ctx_cipher := Some ci,
                      ctx_encrypt := False, ctx_key := take (nat (EVP_CIPHER_key_length ci)) key\<rparr>),
                   m_dec_blockSize := 16, m_dec_ivLength := 16,
                   m_decryptHelper := Reset (m_decryptHelper e),
                   m_operationCnt := 0, m_initialised := True\<rparr>)"
  by (simp add: SetKey_def assms(1) ctx_fresh EVP_CipherInit_ex_key [OF assms(2)] Let_def
      EVP_CIPHER_CTX_block_size_def EVP_CIPHER_CTX_iv_length_def EVP_CIPHER_block_size_def
      EVP_CIPHER_iv_length_def)

lemma SetKey_engine_keyed:
  assumes "SetKey_cipher env (m_algorithmOID e) = Some ci"
    and "EVP_CIPHER_key_length ci \<le> int (length key)"
    and "length (buf (m_decryptHelper e)) = 32" and "length (final_buf (m_decryptHelper e)) = 32"
    and "length (m_iv e) = 16"
  shows "\<exists>e'. SetKey env key e = Some e'
           \<and> engine_keyed (take (nat (EVP_CIPHER_key_length ci)) key) e'"
  using assms(3-5)
  by (simp add: SetKey_supported [OF assms(1,2)] engine_keyed_def EVP_CIPHER_CTX_new_def
      EVP_MAX_BLOCK_LENGTH_def)

lemma new_engine_buffers:
  "length (buf (m_decryptHelper (new_H235CryptoEngine oid))) = 32"
  "length (final_buf (m_decryptHelper (new_H235CryptoEngine oid))) = 32"
  "length (m_iv (new_H235CryptoEngine oid)) = 16"
  "m_algorithmOID (new_H235CryptoEngine oid) = oid"
  "\<not> m_initialised (new_H235CryptoEngine oid)"
  by (simp_all add: new_H235CryptoEngine_def new_H235CryptoHelper_def Reset_def
      EVP_MAX_BLOCK_LENGTH_def EVP_MAX_IV_LENGTH_def)

lemma demo_cipher_ok: "block_cipher_ok demo_platform k"
  by (simp add: block_cipher_ok_def demo_platform_def demo_encrypt_block_def
      demo_decrypt_block_def rev_map [symmetric] comp_def)

lemma demo_engine_keyed: "engine_keyed demo_key demo_engine"
proof -
  have c: "SetKey_cipher demo_platform (m_algorithmOID (new_H235CryptoEngine ID_AES128))
             = Some EVP_aes_128_cbc"
    by (simp add: SetKey_cipher_def new_engine_buffers)
  have l: "EVP_CIPHER_key_length EVP_aes_128_cbc \<le> int (length demo_key)"
    by (simp add: demo_key_def)
  have t: "take (nat (EVP_CIPHER_key_length EVP_aes_128_cbc)) demo_key = demo_key"
    by (simp add: demo_key_def)
  from SetKey_engine_keyed [OF c l new_engine_buffers(1-3)] show ?thesis
    unfolding t by (auto simp: demo_engine_def)
qed

text \<open>
  Claim C1. On an initialised engine with the key \<open>k\<close> installed, for every plaintext
  \<open>P\<close> and every seed pointer that is null or has six bytes behind it, \<open>Encrypt\<close>
  returns a ciphertext and a padding flag, \<open>Decrypt\<close> of that ciphertext with the same
  seed and that flag returns exactly \<open>P\<close>, and the flag is false after \<open>Decrypt\<close>.
\<close>

theorem Decrypt_Encrypt_round_trip:
  assumes ok: "block_cipher_ok env k" and k: "engine_keyed k e" and S: "seed_ok S"
  shows "\<exists>C pad' e' e''. Encrypt env e P S pad = Some (C, pad', e')
           \<and> Decrypt env e' C S pad' = Some (P, False, e'')"
proof -
  define q where "q = length P div 16"
  define r where "r = length P mod 16"
  have len: "length P = 16 * q + r" and r: "r < 16" by (simp_all add: q_def r_def)
  let ?E = "encrypt_block env k"
  let ?D = "decrypt_block env k"
  have ED: "length (?E b) = 16 \<and> ?D (?E b) = b" if "length b = 16" for b
    using ok that by (simp add: block_cipher_ok_def)
  show ?thesis
  proof (cases "r = 0")
    case True
    let ?C = "fst (cbc_encrypt ?E (tiled_iv S) P q)"
    from Encrypt_aligned [OF k ok S, of P q pad] len True
    obtain e' where enc: "Encrypt env e P S pad = Some (?C, False, e')" and k': "engine_keyed k e'"
      by auto
    have lC: "length ?C = 16 * q"
      using cbc_encrypt_length [of ?E "tiled_iv S" q P] ED S len by simp
    from Decrypt_unpadded_aligned [OF k' ok S lC]
    obtain e'' where dec: "Decrypt env e' ?C S False
        = Some (fst (cbc_decrypt ?D (tiled_iv S) ?C q), False, e'')"
      by auto
    have "fst (cbc_decrypt ?D (tiled_iv S) ?C q) = P"
      using cbc_roundtrip [of ?E ?D "tiled_iv S" P q] ED S len True by simp
    with dec have "Decrypt env e' ?C S False = Some (P, False, e'')" by simp
    with enc show ?thesis by blast
  next
    case False
    let ?v = "word_of_nat (16 - r) :: byte"
    let ?padded = "P @ replicate (16 - r) ?v"
    let ?C = "fst (cbc_encrypt ?E (tiled_iv S) ?padded (Suc q))"
    from Encrypt_unaligned [OF k ok S len _ r, of pad] False
    obtain e' where enc: "Encrypt env e P S pad = Some (?C, True, e')" and k': "engine_keyed k e'"
      by auto
    have lp: "length ?padded = 16 * Suc q" using len r by simp
    have lC: "length ?C = 16 * Suc q"
      using cbc_encrypt_length [of ?E "tiled_iv S" "Suc q" ?padded] ED S lp by simp
    have rt: "fst (cbc_decrypt ?D (tiled_iv S) ?C (Suc q)) = ?padded"
      using cbc_roundtrip [of ?E ?D "tiled_iv S" ?padded "Suc q"] ED S lp by simp
    have nth: "?padded ! (16 * q + 15) = ?v"
      using len r False by (simp add: nth_append)
    have un: "unat ?v = 16 - r"
      using r by (simp only: unat_of_nat) simp
    have n: "16 - r = unat (fst (cbc_decrypt ?D (tiled_iv S) ?C (Suc q)) ! (16 * q + 15))"
      by (simp only: rt nth un)
    from Decrypt_padded_aligned [OF k' ok S lC n]
    obtain e'' where dec: "Decrypt env e' ?C S True =
           Some (if 16 - r = 0 \<or> 16 < 16 - r
                 then take (16 * q) (fst (cbc_decrypt ?D (tiled_iv S) ?C (Suc q)))
                 else take (16 * Suc q - (16 - r)) (fst (cbc_decrypt ?D (tiled_iv S) ?C (Suc q))),
                 False, e'')"
      by auto
    have tk: "take (16 * Suc q - (16 - r)) ?padded = P"
      using len r by simp
    have nb: "\<not> (16 - r = 0 \<or> 16 < 16 - r)" using r False by simp
    have "Decrypt env e' ?C S True = Some (P, False, e'')"
      using dec unfolding rt if_not_P [OF nb] tk .
    with enc show ?thesis by blast
  qed
qed

theorem Decrypt_Encrypt_round_trip_witness:
  "block_cipher_ok demo_platform demo_key \<and> engine_keyed demo_key demo_engine
   \<and> seed_ok (Some demo_seed)
   \<and> (\<exists>C pad' e' e''.
         Encrypt demo_platform demo_engine [65, 66, 67, 68] (Some demo_seed) False = Some (C, pad', e')
         \<and> Decrypt demo_platform e' C (Some demo_seed) pad' = Some ([65, 66, 67, 68], False, e''))"
proof -
  have S: "seed_ok (Some demo_seed)" by (simp add: seed_ok_def demo_seed_def)
  show ?thesis
    using Decrypt_Encrypt_round_trip [OF demo_cipher_ok demo_engine_keyed S,
        of "[65, 66, 67, 68]" False]
      demo_cipher_ok demo_engine_keyed S
    by simp
qed

text \<open>
  Claim C2. On an initialised engine, \<open>Encrypt\<close> leaves the flag "the length of \<open>P\<close>
  is not a multiple of 16". When the length is a multiple of 16 the ciphertext has the
  length of \<open>P\<close> and is the CBC encipherment of \<open>P\<close> alone under the tiled IV, with no
  pad block; otherwise its length is 16 times the length of \<open>P\<close> divided by 16 and
  rounded up.
\<close>

theorem Encrypt_flag_and_length:
  assumes ok: "block_cipher_ok env k" and k: "engine_keyed k e" and S: "seed_ok S"
  shows "\<exists>C e'. Encrypt env e P S pad = Some (C, length P mod 16 \<noteq> 0, e')
           \<and> (length P mod 16 = 0 \<longrightarrow>
                 length C = length P
                 \<and> C = fst (cbc_encrypt (encrypt_block env k) (tiled_iv S) P (length P div 16)))
           \<and> (length P mod 16 \<noteq> 0 \<longrightarrow> length C = 16 * ((length P + 15) div 16))"
proof -
  define q where "q = length P div 16"
  define r where "r = length P mod 16"
  have len: "length P = 16 * q + r" and r: "r < 16" by (simp_all add: q_def r_def)
  let ?E = "encrypt_block env k"
  have E: "length (?E b) = 16" if "length b = 16" for b
    using ok that by (simp add: block_cipher_ok_def)
  show ?thesis
  proof (cases "r = 0")
    case True
    let ?C = "fst (cbc_encrypt ?E (tiled_iv S) P q)"
    from Encrypt_aligned [OF k ok S, of P q pad] len True
    obtain e' where enc: "Encrypt env e P S pad = Some (?C, False, e')"
      by auto
    have lC: "length ?C = 16 * q"
      using cbc_encrypt_length [of ?E "tiled_iv S" q P] E S len by simp
    have m0: "length P mod 16 = 0" using True unfolding r_def .
    have qd: "length P div 16 = q" by (simp only: q_def)
    have lP: "length P = 16 * q" using len True by simp
    show ?thesis
    proof (intro exI conjI impI)
      have "(length P mod 16 \<noteq> 0) = False" using m0 by blast
      then show "Encrypt env e P S pad = Some (?C, length P mod 16 \<noteq> 0, e')"
        using enc by (simp only:)
      show "length ?C = length P" using lC lP by simp
      show "?C = fst (cbc_encrypt ?E (tiled_iv S) P (length P div 16))"
        by (simp only: qd)
      assume "length P mod 16 \<noteq> 0"
      with m0 show "length ?C = 16 * ((length P + 15) div 16)" by simp
    qed
  next
    case False
    let ?padded = "P @ replicate (16 - r) (word_of_nat (16 - r))"
    let ?C = "fst (cbc_encrypt ?E (tiled_iv S) ?padded (Suc q))"
    from Encrypt_unaligned [OF k ok S len _ r, of pad] False
    obtain e' where enc: "Encrypt env e P S pad = Some (?C, True, e')"
      by auto
    have lp: "length ?padded = 16 * Suc q" using len r by simp
    have lC: "length ?C = 16 * Suc q"
      using cbc_encrypt_length [of ?E "tiled_iv S" "Suc q" ?padded] E S lp by simp
    have "length P + 15 = (r - 1) + Suc q * 16" using len False by simp
    moreover have "((r - 1) + Suc q * 16) div 16 = Suc q"
      using r by simp
    ultimately have up: "(length P + 15) div 16 = Suc q" by (simp only:)
    have m1: "length P mod 16 \<noteq> 0"
      using False unfolding r_def .
    show ?thesis
    proof (intro exI conjI impI)
      have "(length P mod 16 \<noteq> 0) = True" using m1 by blast
      then show "Encrypt env e P S pad = Some (?C, length P mod 16 \<noteq> 0, e')"
        using enc by (simp only:)
      show "length ?C = 16 * ((length P + 15) div 16)" by (simp only: lC up)
      assume a: "length P mod 16 = 0"
      from a m1 show "length ?C = length P" by simp
      from a m1 show "?C = fst (cbc_encrypt ?E (tiled_iv S) P (length P div 16))" by simp
    qed
  qed
qed

theorem Encrypt_flag_and_length_witness:
  "block_cipher_ok demo_platform demo_key \<and> engine_keyed demo_key demo_engine
   \<and> seed_ok (Some demo_seed)
   \<and> (\<exists>C e'. Encrypt demo_platform demo_engine (replicate 17 170) (Some demo_seed) False
                  = Some (C, True, e') \<and> length C = 32)"
proof -
  have S: "seed_ok (Some demo_seed)" by (simp add: seed_ok_def demo_seed_def)
  show ?thesis
    using Encrypt_flag_and_length [OF demo_cipher_ok demo_engine_keyed S,
        of "replicate 17 170" False]
      demo_cipher_ok demo_engine_keyed S
    by simp
qed

section \<open>The relaxed final\<close>

text \<open>
  Claim C3. With padding enabled, nothing staged and a retained block,
  \<open>DecryptFinalRelaxed\<close> looks at the last byte \<open>n\<close> of the retained block only: it
  fails exactly when \<open>n\<close> is 0 or more than 16, and otherwise writes the first
  \<open>16 - n\<close> bytes of the retained block, whatever the filler bytes before the last one
  are.
\<close>

theorem DecryptFinalRelaxed_last_byte_only:
  assumes "ctx_cipher c = Some ci" and "\<not> ctx_no_padding c" and "buf_len h = 0"
    and "final_used h \<noteq> 0" and "16 \<le> length (final_buf h)"
    and "n = unat (final_buf h ! 15)" and "op + 16 \<le> length out"
  shows "DecryptFinalRelaxed env h c out (int op) =
           (if n = 0 \<or> 16 < n then Some (0, h, c, out, 0)
            else Some (1, h, c,
                       take op out @ take (16 - n) (final_buf h) @ drop (op + (16 - n)) out,
                       int (16 - n)))"
proof (cases "n = 0 \<or> 16 < n")
  case True
  then have "uint (final_buf h ! 15) = 0 \<or> uint (final_buf h ! 15) > 16"
    unfolding assms(6) by (rule bad_pad_uint)
  with assms(1-5) have "DecryptFinalRelaxed env h c out (int op) = Some (0, h, c, out, 0)"
    by (rule DecryptFinalRelaxed_bad)
  with True show ?thesis by (simp only: if_True)
next
  case False
  then have n: "0 < n" "n \<le> 16" by auto
  have "DecryptFinalRelaxed env h c out (int op) =
           Some (1, h, c, take op out @ take (16 - n) (final_buf h) @ drop (op + (16 - n)) out,
                 int (16 - n))"
    using assms(1-5) assms(6) [symmetric] n assms(7)
    by (intro DecryptFinalRelaxed_good) simp_all
  with False show ?thesis by (simp only: if_False)
qed

theorem DecryptFinalRelaxed_last_byte_only_witness:
  "DecryptFinalRelaxed demo_platform demo_retained demo_ctx (replicate 16 0) (int 0) =
     Some (1, demo_retained, demo_ctx,
           [1, 2, 3, 4, 5, 6, 7, 8, 9, 10, 11] @ replicate 5 0, 11)"
proof -
  have a: "ctx_cipher demo_ctx = Some EVP_aes_128_cbc" "\<not> ctx_no_padding demo_ctx"
    by (simp_all add: demo_ctx_def EVP_CIPHER_CTX_new_def)
  have b: "buf_len demo_retained = 0" "final_used demo_retained \<noteq> 0"
    "16 \<le> length (final_buf demo_retained)" "5 = unat (final_buf demo_retained ! 15)"
    by (simp_all add: demo_retained_def new_H235CryptoHelper_def Reset_def)
  have f: "final_buf demo_retained =
      [1, 2, 3, 4, 5, 6, 7, 8, 9, 10, 11, 255, 255, 255, 255, 5] @ replicate 16 0"
    by (simp add: demo_retained_def)
  show ?thesis
    using DecryptFinalRelaxed_last_byte_only [OF a b, of 0 "replicate 16 0" demo_platform]
    by (simp add: f)
qed

section \<open>DecryptInPlace with the padding flag\<close>

lemma DecryptInPlace_padded_start:
  assumes k: "engine_keyed k e" and S: "seed_ok S"
  obtains dc dci where "m_decryptCtx e = Some dc" "ctx_cipher dc = Some dci" "ctx_key dc = k"
    "DecryptInPlace env e inData inLength outData S True =
       DecryptUpdate env (Reset (m_decryptHelper e)) (packet_ctx dc False S True)
          outData 0 inData 0 inLength
       \<bind> (\<lambda>(r, h1, c3, out1, inSize).
          if r = 0 then
            Some (0, out1, True,
                  e\<lparr>m_iv := tiled_iv S, m_decryptCtx := Some c3, m_decryptHelper := h1\<rparr>)
          else DecryptFinalRelaxed env h1 c3 out1 inSize
          \<bind> (\<lambda>(r2, h2, c4, out2, outSize).
             if r2 = 0 then
               Some (0, out2, True,
                     e\<lparr>m_iv := tiled_iv S, m_decryptCtx := Some c4, m_decryptHelper := h2\<rparr>)
             else
               Some (inSize + outSize, out2, False,
                     e\<lparr>m_iv := tiled_iv S, m_decryptCtx := Some c4, m_decryptHelper := h2\<rparr>)))"
proof -
  from k obtain dc dci where d: "m_dec_ivLength e = 16"
    "m_decryptCtx e = Some dc" "ctx_cipher dc = Some dci" "ctx_key dc = k" "length (m_iv e) = 16"
    by (rule engine_keyedD)
  have iv: "SetIV (m_iv e) S 16 = Some (tiled_iv S)"
    using SetIV_tiled [OF S d(5)] .
  have init: "EVP_CipherInit_ex dc None None (Some (tiled_iv S)) False =
     Some (dc\<lparr>ctx_encrypt := False, ctx_oiv := tiled_iv S, ctx_iv := tiled_iv S, ctx_buf_len := 0\<rparr>)"
    using d(3) S by (simp add: EVP_CipherInit_ex_iv)
  have "DecryptInPlace env e inData inLength outData S True =
       DecryptUpdate env (Reset (m_decryptHelper e)) (packet_ctx dc False S True)
          outData 0 inData 0 inLength
       \<bind> (\<lambda>(r, h1, c3, out1, inSize).
          if r = 0 then
            Some (0, out1, True,
                  e\<lparr>m_iv := tiled_iv S, m_decryptCtx := Some c3, m_decryptHelper := h1\<rparr>)
          else DecryptFinalRelaxed env h1 c3 out1 inSize
          \<bind> (\<lambda>(r2, h2, c4, out2, outSize).
             if r2 = 0 then
               Some (0, out2, True,
                     e\<lparr>m_iv := tiled_iv S, m_decryptCtx := Some c4, m_decryptHelper := h2\<rparr>)
             else
               Some (inSize + outSize, out2, False,
                     e\<lparr>m_iv := tiled_iv S, m_decryptCtx := Some c4, m_decryptHelper := h2\<rparr>)))"
    unfolding DecryptInPlace_def
    by (simp add: d iv init Let_def packet_ctx_def EVP_CIPHER_CTX_set_padding_def
        split_def cong: if_cong)
  with d show ?thesis by (rule_tac that)
qed

lemma DecryptInPlace_padded_empty:
  assumes k: "engine_keyed k e" and S: "seed_ok S"
  shows "\<exists>out' e'. DecryptInPlace env e [] 0 outData S True = Some (0, out', True, e')"
proof -
  from k S obtain dc dci where dc: "m_decryptCtx e = Some dc" "ctx_cipher dc = Some dci"
    and st: "DecryptInPlace env e [] 0 outData S True =
       DecryptUpdate env (Reset (m_decryptHelper e)) (packet_ctx dc False S True)
          outData 0 [] 0 0
       \<bind> (\<lambda>(r, h1, c3, out1, inSize).
          if r = 0 then
            Some (0, out1, True,
                  e\<lparr>m_iv := tiled_iv S, m_decryptCtx := Some c3, m_decryptHelper := h1\<rparr>)
          else DecryptFinalRelaxed env h1 c3 out1 inSize
          \<bind> (\<lambda>(r2, h2, c4, out2, outSize).
             if r2 = 0 then
               Some (0, out2, True,
                     e\<lparr>m_iv := tiled_iv S, m_decryptCtx := Some c4, m_decryptHelper := h2\<rparr>)
             else
               Some (inSize + outSize, out2, False,
                     e\<lparr>m_iv := tiled_iv S, m_decryptCtx := Some c4, m_decryptHelper := h2\<rparr>)))"
    by (rule DecryptInPlace_padded_start [where env = env and inData = "[]" and inLength = 0
          and outData = outData])
  show ?thesis
    by (simp add: st DecryptUpdate_zero DecryptFinalRelaxed_wrong_length [where ci = dci] dc)
qed

lemma DecryptInPlace_padded_unaligned:
  assumes k: "engine_keyed k e" and ok: "block_cipher_ok env k" and S: "seed_ok S"
    and len: "length C = 16 * q + r" and r: "0 < r" "r < 16"
    and out: "16 * q \<le> length outData"
  shows "\<exists>out' e'. DecryptInPlace env e C (int (length C)) outData S True
           = Some (0, out', True, e')"
proof -
  from k S obtain dc dci where dc: "m_decryptCtx e = Some dc" "ctx_cipher dc = Some dci"
    "ctx_key dc = k"
    and st: "DecryptInPlace env e C (int (length C)) outData S True =
       DecryptUpdate env (Reset (m_decryptHelper e)) (packet_ctx dc False S True)
          outData 0 C 0 (int (length C))
       \<bind> (\<lambda>(r, h1, c3, out1, inSize).
          if r = 0 then
            Some (0, out1, True,
                  e\<lparr>m_iv := tiled_iv S, m_decryptCtx := Some c3, m_decryptHelper := h1\<rparr>)
          else DecryptFinalRelaxed env h1 c3 out1 inSize
          \<bind> (\<lambda>(r2, h2, c4, out2, outSize).
             if r2 = 0 then
               Some (0, out2, True,
                     e\<lparr>m_iv := tiled_iv S, m_decryptCtx := Some c4, m_decryptHelper := h2\<rparr>)
             else
               Some (inSize + outSize, out2, False,
                     e\<lparr>m_iv := tiled_iv S, m_decryptCtx := Some c4, m_decryptHelper := h2\<rparr>)))"
    by (rule DecryptInPlace_padded_start [where env = env and inData = C
          and inLength = "int (length C)" and outData = outData])
  let ?c = "packet_ctx dc False S True"
  let ?h = "Reset (m_decryptHelper e)"
  have hb: "16 \<le> length (buf ?h)" "16 \<le> length (final_buf ?h)"
    using k by (auto elim: engine_keyedD)
  have up: "DecryptUpdate env ?h ?c outData (int 0) C 0 (int (16 * q + r)) =
           Some (1,
                 ?h\<lparr>buf := take r (drop (16 * q) C) @ drop r (buf ?h), buf_len := int r\<rparr>,
                 ?c\<lparr>ctx_iv := snd (ctx_cbc env ?c C q)\<rparr>,
                 take 0 outData @ fst (ctx_cbc env ?c C q) @ drop (0 + 16 * q) outData,
                 int (16 * q))"
    using dc ok S hb len r out by (intro DecryptUpdate_padded_unaligned) simp_all
  show ?thesis
    unfolding st using up r(1)
    by (simp add: len DecryptFinalRelaxed_wrong_length [where ci = dci] dc
        del: of_nat_add of_nat_mult)
qed

lemma DecryptInPlace_padded_aligned_bad:
  assumes k: "engine_keyed k e" and ok: "block_cipher_ok env k" and S: "seed_ok S"
    and len: "length C = 16 * Suc m"
    and n: "n = unat (fst (cbc_decrypt (decrypt_block env k) (tiled_iv S) C (Suc m)) ! (16 * m + 15))"
    and bad: "n = 0 \<or> 16 < n"
    and out: "16 * Suc m \<le> length outData"
  shows "\<exists>out' e'. DecryptInPlace env e C (int (length C)) outData S True
           = Some (0, out', True, e')"
proof -
  from k S obtain dc dci where dc: "m_decryptCtx e = Some dc" "ctx_cipher dc = Some dci"
    "ctx_key dc = k"
    and st: "DecryptInPlace env e C (int (length C)) outData S True =
       DecryptUpdate env (Reset (m_decryptHelper e)) (packet_ctx dc False S True)
          outData 0 C 0 (int (length C))
       \<bind> (\<lambda>(r, h1, c3, out1, inSize).
          if r = 0 then
            Some (0, out1, True,
                  e\<lparr>m_iv := tiled_iv S, m_decryptCtx := Some c3, m_decryptHelper := h1\<rparr>)
          else DecryptFinalRelaxed env h1 c3 out1 inSize
          \<bind> (\<lambda>(r2, h2, c4, out2, outSize).
             if r2 = 0 then
               Some (0, out2, True,
                     e\<lparr>m_iv := tiled_iv S, m_decryptCtx := Some c4, m_decryptHelper := h2\<rparr>)
             else
               Some (inSize + outSize, out2, False,
                     e\<lparr>m_iv := tiled_iv S, m_decryptCtx := Some c4, m_decryptHelper := h2\<rparr>)))"
    by (rule DecryptInPlace_padded_start [where env = env and inData = C
          and inLength = "int (length C)" and outData = outData])
  let ?c = "packet_ctx dc False S True"
  let ?h = "Reset (m_decryptHelper e)"
  let ?R = "cbc_decrypt (decrypt_block env k) (tiled_iv S) C (Suc m)"
  let ?pl = "fst ?R"
  let ?h1 = "?h\<lparr>final_used := 1, final_buf := drop (16 * m) ?pl @ drop 16 (final_buf ?h)\<rparr>"
  let ?c1 = "?c\<lparr>ctx_iv := snd ?R\<rparr>"
  let ?out1 = "?pl @ drop (16 * Suc m) outData"
  have hb: "16 \<le> length (buf ?h)" "16 \<le> length (final_buf ?h)"
    using k by (auto elim: engine_keyedD)
  have R: "ctx_cbc env ?c C (Suc m) = ?R"
    by (simp add: ctx_cbc_decrypt dc)
  have lR: "length ?pl = 16 * Suc m"
    using ctx_cbc_length(1) [of env ?c "Suc m" C] ok S len by (simp add: dc R)
  have "DecryptUpdate env ?h ?c outData (int 0) C 0 (int (16 * Suc m)) =
           Some (1,
                 ?h\<lparr>final_used := 1,
                   final_buf := drop (16 * m) (fst (ctx_cbc env ?c C (Suc m))) @ drop 16 (final_buf ?h)\<rparr>,
                 ?c\<lparr>ctx_iv := snd (ctx_cbc env ?c C (Suc m))\<rparr>,
                 take 0 outData @ fst (ctx_cbc env ?c C (Suc m)) @ drop (0 + 16 * Suc m) outData,
                 int (16 * m))"
    using dc ok S hb len out by (intro DecryptUpdate_padded_aligned) simp_all
  then have up: "DecryptUpdate env ?h ?c outData 0 C 0 (int (length C)) =
           Some (1, ?h1, ?c1, ?out1, int (16 * m))"
    by (simp add: R len del: of_nat_mult of_nat_Suc mult_Suc_right)
  have lb: "final_buf ?h1 ! 15 = ?pl ! (16 * m + 15)"
    using lR by (simp add: nth_append)
  have h1: "ctx_cipher ?c1 = Some dci" "\<not> ctx_no_padding ?c1" "buf_len ?h1 = 0"
    "final_used ?h1 \<noteq> 0" "16 \<le> length (final_buf ?h1)"
    using lR hb dc by simp_all
  from bad have "uint (?pl ! (16 * m + 15)) = 0 \<or> uint (?pl ! (16 * m + 15)) > 16"
    unfolding n by (rule bad_pad_uint)
  then have "uint (final_buf ?h1 ! 15) = 0 \<or> uint (final_buf ?h1 ! 15) > 16"
    by (simp only: lb)
  with h1 have fin: "DecryptFinalRelaxed env ?h1 ?c1 ?out1 (int (16 * m)) = Some (0, ?h1, ?c1, ?out1, 0)"
    by (rule DecryptFinalRelaxed_bad)
  show ?thesis
    by (simp only: st up bind.bind_lunit case_prod_conv fin) simp
qed

section \<open>A failing final: by value and in place\<close>

lemma demo_seed_ok: "seed_ok (Some demo_seed)"
  by (simp add: seed_ok_def demo_seed_def)

lemma demo_decrypt_two_blocks:
  "fst (cbc_decrypt (decrypt_block demo_platform demo_key) (tiled_iv (Some demo_seed))
         (replicate 32 1) (Suc (Suc 0)))
     = [153, 152, 155, 154, 157, 156, 153, 152, 155, 154, 157, 156, 153, 152, 155, 154,
        136, 136, 136, 136, 136, 136, 136, 136, 136, 136, 136, 136, 136, 136, 136, 136]"
  by code_simp

lemma demo_decrypt_one_block:
  "fst (cbc_decrypt (decrypt_block demo_platform demo_key) (tiled_iv (Some demo_seed))
         (replicate 17 1) (Suc 0))
     = [153, 152, 155, 154, 157, 156, 153, 152, 155, 154, 157, 156, 153, 152, 155, 154]"
  by code_simp

text \<open>
  Claim C7. A padded ciphertext of \<open>m + 1\<close> blocks whose last deciphered byte \<open>n\<close> is
  0 or more than 16 makes the relaxed final fail. \<open>Decrypt\<close> then returns the
  \<open>16 * m\<close> bytes the update produced, the final adding nothing, and
  \<open>DecryptInPlace\<close> returns 0.
\<close>

theorem bad_padding_Decrypt_and_DecryptInPlace:
  assumes "block_cipher_ok env k" and "engine_keyed k e" and "seed_ok S"
    and "length C = 16 * Suc m"
    and "n = unat (fst (cbc_decrypt (decrypt_block env k) (tiled_iv S) C (Suc m)) ! (16 * m + 15))"
    and "n = 0 \<or> 16 < n"
    and "length C \<le> length outData"
  shows "(\<exists>e'. Decrypt env e C S True =
            Some (take (16 * m) (fst (cbc_decrypt (decrypt_block env k) (tiled_iv S) C (Suc m))),
                  False, e'))
         \<and> (\<exists>out' e'. DecryptInPlace env e C (int (length C)) outData S True
                = Some (0, out', True, e'))"
proof
  from Decrypt_padded_aligned [OF assms(2,1,3,4,5)] assms(6)
  show "\<exists>e'. Decrypt env e C S True =
            Some (take (16 * m) (fst (cbc_decrypt (decrypt_block env k) (tiled_iv S) C (Suc m))),
                  False, e')"
    by (simp only: if_True)
  have "16 * Suc m \<le> length outData" using assms(4,7) by simp
  with assms show "\<exists>out' e'. DecryptInPlace env e C (int (length C)) outData S True
                = Some (0, out', True, e')"
    by (intro DecryptInPlace_padded_aligned_bad [where m = m and n = n])
qed

theorem bad_padding_Decrypt_and_DecryptInPlace_witness:
  "(\<exists>e'. Decrypt demo_platform demo_engine (replicate 32 1) (Some demo_seed) True =
            Some ([153, 152, 155, 154, 157, 156, 153, 152, 155, 154, 157, 156, 153, 152, 155, 154],
                  False, e'))
   \<and> (\<exists>out' e'. DecryptInPlace demo_platform demo_engine (replicate 32 1) 32 (replicate 48 0)
                    (Some demo_seed) True
          = Some (0, out', True, e'))"
proof -
  have n: "136 = unat (fst (cbc_decrypt (decrypt_block demo_platform demo_key)
                 (tiled_iv (Some demo_seed)) (replicate 32 1) (Suc (Suc 0))) ! (16 * Suc 0 + 15))"
    by (simp only: demo_decrypt_two_blocks) simp
  have l: "length (replicate 32 (1::byte)) = 16 * Suc (Suc 0)" by simp
  have b: "(136::nat) = 0 \<or> 16 < (136::nat)" by simp
  have o: "length (replicate 32 (1::byte)) \<le> length (replicate 48 (0::byte))" by simp
  show ?thesis
    using bad_padding_Decrypt_and_DecryptInPlace
      [OF demo_cipher_ok demo_engine_keyed demo_seed_ok l n b o]
    unfolding demo_decrypt_two_blocks by simp
qed

text \<open>
  Claim C9, as amended. On an initialised engine, \<open>Decrypt\<close> with the padding flag set
  on a ciphertext whose length is not a positive multiple of 16 makes the relaxed final
  fail: \<open>DecryptInPlace\<close> returns 0, and \<open>Decrypt\<close> returns the bytes the update
  produced, the CBC decipherment of the complete blocks, which is empty only when the
  ciphertext is shorter than one block.
\<close>

theorem padded_Decrypt_of_unaligned_ciphertext:
  assumes "block_cipher_ok env k" and "engine_keyed k e" and "seed_ok S"
    and "\<not> (0 < length C \<and> length C mod 16 = 0)"
    and "length C \<le> length outData"
  shows "(\<exists>e'. Decrypt env e C S True =
            Some (fst (cbc_decrypt (decrypt_block env k) (tiled_iv S) C (length C div 16)),
                  False, e'))
         \<and> length (fst (cbc_decrypt (decrypt_block env k) (tiled_iv S) C (length C div 16)))
             = 16 * (length C div 16)
         \<and> (\<exists>out' e'. DecryptInPlace env e C (int (length C)) outData S True
                = Some (0, out', True, e'))"
proof (cases "C = []")
  case True
  have d: "length C div 16 = 0" using True by simp
  show ?thesis
    unfolding d using Decrypt_padded_empty [OF assms(2,3), of env]
      DecryptInPlace_padded_empty [OF assms(2,3), of env outData] True
    by simp
next
  case False
  define q where "q = length C div 16"
  define r where "r = length C mod 16"
  have len: "length C = 16 * q + r" and r: "r < 16" by (simp_all add: q_def r_def)
  have r0: "0 < r" using assms(4) False unfolding r_def by simp
  have out: "16 * q \<le> length outData" using assms(5) len by simp
  have D: "length (decrypt_block env k b) = 16" if "length b = 16" for b
    using assms(1) that by (simp add: block_cipher_ok_def)
  have l: "length (fst (cbc_decrypt (decrypt_block env k) (tiled_iv S) C q)) = 16 * q"
    using cbc_decrypt_length [of "decrypt_block env k" "tiled_iv S" q C] D assms(3) len by simp
  show ?thesis
    unfolding q_def [symmetric]
    using Decrypt_padded_unaligned [OF assms(2,1,3) len r0 r]
      DecryptInPlace_padded_unaligned [OF assms(2,1,3) len r0 r out] l
    by blast
qed

theorem padded_Decrypt_of_unaligned_ciphertext_witness:
  "(\<exists>e'. Decrypt demo_platform demo_engine (replicate 17 1) (Some demo_seed) True =
            Some ([153, 152, 155, 154, 157, 156, 153, 152, 155, 154, 157, 156, 153, 152, 155, 154],
                  False, e'))
   \<and> (\<exists>out' e'. DecryptInPlace demo_platform demo_engine (replicate 17 1) 17 (replicate 48 0)
                    (Some demo_seed) True
          = Some (0, out', True, e'))"
proof -
  have a: "\<not> (0 < length (replicate 17 (1::byte)) \<and> length (replicate 17 (1::byte)) mod 16 = 0)"
    by simp
  have o: "length (replicate 17 (1::byte)) \<le> length (replicate 48 (0::byte))" by simp
  have d: "length (replicate 17 (1::byte)) div 16 = Suc 0" by simp
  show ?thesis
    using padded_Decrypt_of_unaligned_ciphertext
      [OF demo_cipher_ok demo_engine_keyed demo_seed_ok a o]
    unfolding d demo_decrypt_one_block by simp
qed

theorem padded_Decrypt_not_empty_counterexample:
  "length (replicate 17 (1::byte)) mod 16 \<noteq> 0
   \<and> map_option fst (Decrypt demo_platform demo_engine (replicate 17 1) (Some demo_seed) True)
       = Some [153, 152, 155, 154, 157, 156, 153, 152, 155, 154, 157, 156, 153, 152, 155, 154]"
proof -
  have l: "length (replicate 17 (1::byte)) = 16 * Suc 0 + 1" by simp
  from Decrypt_padded_unaligned [OF demo_engine_keyed demo_cipher_ok demo_seed_ok l]
  obtain e' where "Decrypt demo_platform demo_engine (replicate 17 1) (Some demo_seed) True
      = Some (fst (cbc_decrypt (decrypt_block demo_platform demo_key) (tiled_iv (Some demo_seed))
                (replicate 17 1) (Suc 0)), False, e')"
    by auto
  then show ?thesis
    unfolding demo_decrypt_one_block by simp
qed

section \<open>An engine without a supported algorithm; random keys\<close>

lemma SetKey_unsupported:
  "SetKey_cipher env (m_algorithmOID e) = None \<Longrightarrow> SetKey env key e = Some e"
  by (simp add: SetKey_def)

text \<open>
  Claim C5, as amended. If the algorithm of the engine is not a supported one,
  \<open>SetKey\<close> changes nothing, so an engine that was not initialised stays so; then
  \<open>Encrypt\<close> and \<open>Decrypt\<close> return an empty array and change neither the flag nor
  the engine, and \<open>EncryptInPlace\<close> fills the first \<open>inLength\<close> bytes of the output
  with zeros and returns \<open>inLength\<close>.
\<close>

theorem unsupported_algorithm_operations:
  assumes "SetKey_cipher env (m_algorithmOID e) = None" and "\<not> m_initialised e"
  shows "SetKey env key e = Some e
         \<and> Encrypt env e P S pad = Some ([], pad, e)
         \<and> Decrypt env e C S pad = Some ([], pad, e)
         \<and> (n \<le> length outData \<longrightarrow>
               EncryptInPlace env e inData (int n) outData S pad
                 = Some (int n, replicate n 0 @ drop n outData, pad, e))"
proof (intro conjI impI)
  show "SetKey env key e = Some e" using assms(1) by (rule SetKey_unsupported)
  show "Encrypt env e P S pad = Some ([], pad, e)" using assms(2) by (simp add: Encrypt_def)
  show "Decrypt env e C S pad = Some ([], pad, e)" using assms(2) by (simp add: Decrypt_def)
  assume n: "n \<le> length outData"
  have "mem_write outData (int 0) (replicate n 0) =
          Some (take 0 outData @ replicate n 0 @ drop (0 + length (replicate n (0::byte))) outData)"
    using n by (intro mem_write_at) simp
  then have "memset outData 0 0 (int n) = Some (replicate n 0 @ drop n outData)"
    by (simp add: memset_def)
  then show "EncryptInPlace env e inData (int n) outData S pad
                 = Some (int n, replicate n 0 @ drop n outData, pad, e)"
    using assms(2) by (simp add: EncryptInPlace_def)
qed

theorem unsupported_algorithm_operations_witness:
  "SetKey demo_platform demo_key (new_H235CryptoEngine ''DES'') = Some (new_H235CryptoEngine ''DES'')
   \<and> Encrypt demo_platform (new_H235CryptoEngine ''DES'') [1, 2, 3] None True
        = Some ([], True, new_H235CryptoEngine ''DES'')
   \<and> Decrypt demo_platform (new_H235CryptoEngine ''DES'') [1, 2, 3] None True
        = Some ([], True, new_H235CryptoEngine ''DES'')
   \<and> EncryptInPlace demo_platform (new_H235CryptoEngine ''DES'') [1, 2, 3] (int 3) [9, 9, 9, 9] None True
        = Some (int 3, replicate 3 0 @ drop 3 [9, 9, 9, 9], True, new_H235CryptoEngine ''DES'')"
proof -
  have a: "SetKey_cipher demo_platform (m_algorithmOID (new_H235CryptoEngine ''DES'')) = None"
    by (simp add: SetKey_cipher_def new_engine_buffers ID_AES128_def ID_AES192_def ID_AES256_def)
  have b: "\<not> m_initialised (new_H235CryptoEngine ''DES'')"
    by (rule new_engine_buffers)
  show ?thesis
    using unsupported_algorithm_operations [OF a b, of demo_key "[1, 2, 3]" None True
        "[1, 2, 3]" 3 "[9, 9, 9, 9]" "[1, 2, 3]"]
    by simp
qed

theorem EncryptInPlace_uninitialised_counterexample:
  "SetKey demo_platform demo_key (new_H235CryptoEngine ''DES'') = Some (new_H235CryptoEngine ''DES'')
   \<and> \<not> m_initialised (new_H235CryptoEngine ''DES'')
   \<and> map_option fst
        (EncryptInPlace demo_platform (new_H235CryptoEngine ''DES'') [1, 2, 3] 3 [9, 9, 9, 9] None True)
       = Some 3"
proof -
  have a: "SetKey_cipher demo_platform (m_algorithmOID (new_H235CryptoEngine ''DES'')) = None"
    by (simp add: SetKey_cipher_def new_engine_buffers ID_AES128_def ID_AES192_def ID_AES256_def)
  have b: "\<not> m_initialised (new_H235CryptoEngine ''DES'')"
    by (rule new_engine_buffers)
  have c: "memset [9, 9, 9, 9] 0 0 3 = Some [0, 0, 0, 9]"
    by (simp add: memset_def mem_write_def numeral_eq_Suc)
  show ?thesis
    using SetKey_unsupported [OF a, of demo_key] b c by (simp add: EncryptInPlace_def)
qed

text \<open>
  Claim C6. \<open>GenerateRandomKey\<close> with an argument returns 16 bytes whenever the
  argument is AES-128, whatever the algorithm of the engine is. Otherwise, where the
  larger key sizes are compiled in, the algorithm of the engine decides and the argument
  is not looked at: 24 bytes for AES-192 and 32 bytes for AES-256. In every other case
  the key is empty.
\<close>

theorem GenerateRandomKey_sizes:
  "(algorithmOID = ID_AES128 \<longrightarrow> length (GenerateRandomKey env e algorithmOID) = 16)
   \<and> (algorithmOID \<noteq> ID_AES128 \<and> H323_H235_AES256 env \<and> m_algorithmOID e = ID_AES192 \<longrightarrow>
        length (GenerateRandomKey env e algorithmOID) = 24)
   \<and> (algorithmOID \<noteq> ID_AES128 \<and> H323_H235_AES256 env \<and> m_algorithmOID e = ID_AES256 \<longrightarrow>
        length (GenerateRandomKey env e algorithmOID) = 32)
   \<and> (algorithmOID \<noteq> ID_AES128
        \<and> \<not> (H323_H235_AES256 env
              \<and> (m_algorithmOID e = ID_AES192 \<or> m_algorithmOID e = ID_AES256)) \<longrightarrow>
        GenerateRandomKey env e algorithmOID = [])"
  by (auto simp add: GenerateRandomKey_def RAND_bytes_def SetSize_def ID_AES192_def ID_AES256_def)

theorem GenerateRandomKey_sizes_witness:
  "length (GenerateRandomKey demo_platform (new_H235CryptoEngine ID_AES256) ID_AES128) = 16
   \<and> length (GenerateRandomKey demo_platform (new_H235CryptoEngine ID_AES192) ID_AES256) = 24
   \<and> length (GenerateRandomKey demo_platform (new_H235CryptoEngine ID_AES256) ''DES'') = 32
   \<and> GenerateRandomKey demo_platform (new_H235CryptoEngine ID_AES128) ID_AES192 = []"
proof -
  have g: "H323_H235_AES256 demo_platform" by (simp add: demo_platform_def)
  have d: "ID_AES256 \<noteq> ID_AES128" "''DES'' \<noteq> ID_AES128" "ID_AES192 \<noteq> ID_AES128"
    "ID_AES128 \<noteq> ID_AES192" "ID_AES128 \<noteq> ID_AES256"
    by (simp_all add: ID_AES128_def ID_AES192_def ID_AES256_def)
  show ?thesis
    using GenerateRandomKey_sizes [of ID_AES128 demo_platform "new_H235CryptoEngine ID_AES256"]
      GenerateRandomKey_sizes [of ID_AES256 demo_platform "new_H235CryptoEngine ID_AES192"]
      GenerateRandomKey_sizes [of "''DES''" demo_platform "new_H235CryptoEngine ID_AES256"]
      GenerateRandomKey_sizes [of ID_AES192 demo_platform "new_H235CryptoEngine ID_AES128"]
      g d
    by (simp add: new_engine_buffers)
qed

section \<open>Creating a session\<close>








section \<open>The CTS update\<close>

lemma memcpy_SomeD:
  assumes "memcpy dst (int d) src (int s) (int n) = Some m"
  shows "s + n \<le> length src" and "d + n \<le> length dst"
    and "m = take d dst @ take n (drop s src) @ drop (d + n) dst"
proof -
  from assms obtain xs where r: "mem_read src (int s) (int n) = Some xs"
    and w: "mem_write dst (int d) xs = Some m"
    by (auto simp: memcpy_def split: option.splits)
  from r show a: "s + n \<le> length src" by (auto simp: mem_read_def split: if_splits)
  from r have xs: "xs = take n (drop s src)" by (auto simp: mem_read_def split: if_splits)
  with a have lx: "length xs = n" by simp
  from w lx show "d + n \<le> length dst" by (auto simp: mem_write_def split: if_splits)
  from w lx xs show "m = take d dst @ take n (drop s src) @ drop (d + n) dst"
    by (auto simp: mem_write_def split: if_splits)
qed

lemma EVP_Cipher_rc: "EVP_Cipher env c out op inp ip inl = Some (r, c', out') \<Longrightarrow> r = 1"
  by (auto simp: EVP_Cipher_def Let_def bind_eq_Some_conv split: option.splits if_splits)

text \<open>The three ways through the second half of the CTS update, as the helper sees them.\<close>

lemma EncryptUpdateCTS_fill_cases:
  assumes ok: "EncryptUpdateCTS_fill env h c out op outl inp (int i) (int n) 16
                 = Some (1, h', c', out', outl')"
    and a: "buf_len h = int a" "a \<le> 16" "16 < a + n"
  obtains
    (one_block) b fb b2 where "a + n - 16 \<le> 16"
      "memcpy (buf h) (int a) inp (int i) (int (16 - a)) = Some b"
      "memcpy (final_buf h) (int 0) b (int 0) (int 16) = Some fb"
      "memcpy b (int 0) inp (int (i + (16 - a))) (int (a + n - 16)) = Some b2"
      "h' = h\<lparr>buf := b2, buf_len := int (a + n - 16), final_buf := fb, final_used := 1\<rparr>"
  | (leftover) b fb b2 where "16 < a + n - 16" "(a + n - 16) mod 16 \<noteq> 0"
      "memcpy (buf h) (int a) inp (int i) (int (16 - a)) = Some b"
      "memcpy b (int 0) inp (int (i + n - (a + n - 16) mod 16)) (int ((a + n - 16) mod 16)) = Some b2"
      "memcpy (final_buf h) (int 0) inp (int (i + n - (a + n - 16) mod 16 - 16)) (int 16) = Some fb"
      "h' = h\<lparr>buf := b2, buf_len := int ((a + n - 16) mod 16), final_buf := fb, final_used := 1\<rparr>"
  | (even) b fb b2 where "16 < a + n - 16" "(a + n - 16) mod 16 = 0"
      "memcpy (buf h) (int a) inp (int i) (int (16 - a)) = Some b"
      "memcpy b (int 0) inp (int (i + n - 16)) (int 16) = Some b2"
      "memcpy (final_buf h) (int 0) inp (int (i + n - 32)) (int 16) = Some fb"
      "h' = h\<lparr>buf := b2, buf_len := 16, final_buf := fb, final_used := 1\<rparr>"
proof -
  define m where "m = a + n - 16"
  have m: "int n - int (16 - a) = int m" "0 < m" using a by (simp_all add: m_def)
  have s: "16 - int a = int (16 - a)" using a by simp
  have i1: "int i + int (16 - a) = int (i + (16 - a))" by simp
  from ok obtain b where b: "memcpy (buf h) (int a) inp (int i) (int (16 - a)) = Some b"
    by (auto simp: EncryptUpdateCTS_fill_def a(1) s bind_eq_Some_conv simp del: of_nat_diff)
  show thesis
  proof (cases "m \<le> 16")
    case True
    from ok obtain fb b2 where "memcpy (final_buf h) 0 b 0 16 = Some fb"
      "memcpy b 0 inp (int (i + (16 - a))) (int m) = Some b2"
      "h' = h\<lparr>buf := b2, buf_len := int m, final_buf := fb, final_used := 1\<rparr>"
      using True
      apply (simp add: EncryptUpdateCTS_fill_def a(1) s b Let_def m i1 bind_eq_Some_conv
          del: of_nat_diff of_nat_add)
      apply auto
      done
    then show thesis
      using True b by (intro one_block [of b fb b2]) (simp_all add: m_def)
  next
    case False
    have lo: "int m AND 15 = int (m mod 16)" by (simp add: and_15 zmod_int)
    have nm: "(16 - a) + m = n" "m mod 16 \<le> m" "16 < m" using a False by (simp_all add: m_def)
    show thesis
    proof (cases "m mod 16 = 0")
      case r: False
      have e1: "int (i + (16 - a)) + (int m - int (m mod 16)) = int (i + n - m mod 16)"
        using nm by linarith
      have ge: "m mod 16 + 16 \<le> m" using nm(3) by presburger
      have e2: "int (i + (16 - a)) + (int m - (16 + int (m mod 16))) = int (i + n - m mod 16 - 16)"
        using nm ge by linarith
      from ok obtain fb b2 where
        "memcpy b 0 inp (int (i + n - m mod 16)) (int (m mod 16)) = Some b2"
        "memcpy (final_buf h) 0 inp (int (i + n - m mod 16 - 16)) 16 = Some fb"
        "h' = h\<lparr>buf := b2, buf_len := int (m mod 16), final_buf := fb, final_used := 1\<rparr>"
        using False r
        apply (simp add: EncryptUpdateCTS_fill_def a(1) s b Let_def m i1 lo bind_eq_Some_conv
            del: of_nat_diff of_nat_add)
        apply (auto simp add: Let_def lo e1 e2 bind_eq_Some_conv
            simp del: of_nat_diff of_nat_add split: if_splits)
        done
      then show thesis
        using False r b nm by (intro leftover [of b b2 fb]) (simp_all add: m_def)
    next
      case r: True
      have ge: "32 \<le> m" using nm(3) r by presburger
      have e1: "int (i + (16 - a)) + (int m - 16) = int (i + n - 16)"
        using nm ge by linarith
      have e2: "int (i + (16 - a)) + (int m - 32) = int (i + n - 32)"
        using nm ge by linarith
      from ok obtain fb b2 where
        "memcpy b 0 inp (int (i + n - 16)) 16 = Some b2"
        "memcpy (final_buf h) 0 inp (int (i + n - 32)) 16 = Some fb"
        "h' = h\<lparr>buf := b2, buf_len := 16, final_buf := fb, final_used := 1\<rparr>"
        using False r
        apply (simp add: EncryptUpdateCTS_fill_def a(1) s b Let_def m i1 lo bind_eq_Some_conv
            del: of_nat_diff of_nat_add)
        apply (auto simp add: Let_def lo e1 e2 bind_eq_Some_conv
            simp del: of_nat_diff of_nat_add split: if_splits)
        done
      then show thesis
        using False r b nm by (intro even [of b b2 fb]) (simp_all add: m_def)
    qed
  qed
qed

lemma take_split_at:
  "n = x + y \<Longrightarrow> take n (drop i xs) = take x (drop i xs) @ take y (drop (i + x) xs)"
  by (simp add: take_add add.commute)

lemma drop_take_window:
  "k + w = n \<Longrightarrow> drop k (take n (drop i xs)) = take w (drop (i + k) xs)"
  by (auto simp add: drop_take add.commute)

lemma drop_past_prefix: "length ys = a \<Longrightarrow> drop (a + k) (ys @ zs) = drop k zs"
  by simp

lemma last_bytes_of_staged_and_input:
  assumes "length ys = a" and "k + (w + v) = n" and "d = a + k"
  shows "drop d (ys @ take n (drop i xs)) = take w (drop (i + k) xs) @ take v (drop (i + k + w) xs)"
proof -
  have "drop d (ys @ take n (drop i xs)) = drop k (take n (drop i xs))"
    unfolding assms(3) using assms(1) by (rule drop_past_prefix)
  also have "\<dots> = take (w + v) (drop (i + k) xs)"
    using assms(2) by (rule drop_take_window)
  also have "\<dots> = take w (drop (i + k) xs) @ take v (drop (i + k + w) xs)"
    by (rule take_split_at) simp
  finally show ?thesis .
qed

lemma mod16_leftover: "16 < M \<Longrightarrow> M mod 16 \<noteq> 0 \<Longrightarrow> M mod 16 + 16 \<le> (M::nat)"
  by presburger

lemma mod16_even: "16 < M \<Longrightarrow> M mod 16 = 0 \<Longrightarrow> 32 \<le> (M::nat)"
  by presburger

lemma EncryptUpdateCTS_fill_state:
  assumes ok: "EncryptUpdateCTS_fill env h c out op outl inp (int i) (int n) 16
                 = Some (1, h', c', out', outl')"
    and a: "buf_len h = int a" "a \<le> 16" "16 < a + n"
  shows "\<exists>a'. buf_len h' = int a' \<and> 0 < a' \<and> a' \<le> 16 \<and> final_used h' = 1
           \<and> take 16 (final_buf h') @ take a' (buf h')
               = drop (a + n - 16 - a') (take a (buf h) @ take n (drop i inp))"
  using ok a
proof (cases rule: EncryptUpdateCTS_fill_cases)
  case (one_block b fb b2)
  define m where "m = a + n - 16"
  note B = memcpy_SomeD [OF one_block(2)]
  note F = memcpy_SomeD [OF one_block(3)]
  note B2 = memcpy_SomeD [OF one_block(4) [folded m_def]]
  have la: "length (take a (buf h)) = a" using B(2) a(2) by simp
  have lb: "length (take (16 - a) (drop i inp)) = 16 - a" using B(1) by simp
  have t16: "take 16 b = take a (buf h) @ take (16 - a) (drop i inp)"
    unfolding B(3) using la lb a(2) by simp
  have tf: "take 16 fb = take 16 b"
    unfolding F(3) using F(1) by simp
  have tb2: "take m b2 = take m (drop (i + (16 - a)) inp)"
    unfolding B2(3) using B2(1) by simp
  have n: "n = (16 - a) + m" and m: "0 < m" "m \<le> 16" "a + n - 16 - m = 0"
    using a one_block(1) by (simp_all add: m_def)
  have sp: "take n (drop i inp) = take (16 - a) (drop i inp) @ take m (drop (i + (16 - a)) inp)"
    using n by (rule take_split_at)
  have h': "buf_len h' = int m" "final_used h' = 1" "final_buf h' = fb" "buf h' = b2"
    unfolding one_block(5) m_def by simp_all
  have "take 16 (final_buf h') @ take m (buf h')
               = drop (a + n - 16 - m) (take a (buf h) @ take n (drop i inp))"
    unfolding h' m(3) tf t16 tb2 sp by simp
  then show ?thesis
    by (intro exI [of _ m] conjI h'(1) h'(2) m(1) m(2))
next
  case (leftover b fb b2)
  define l where "l = (a + n - 16) mod 16"
  note B = memcpy_SomeD [OF leftover(3)]
  note B2 = memcpy_SomeD [OF leftover(4) [folded l_def]]
  note F = memcpy_SomeD [OF leftover(5) [folded l_def]]
  have ge: "l + 16 \<le> a + n - 16" "0 < l" "l \<le> 16"
    using mod16_leftover [OF leftover(1,2)] leftover(2) unfolding l_def by simp_all
  have la: "length (take a (buf h)) = a" using B(2) a(2) by simp
  have tf: "take 16 fb = take 16 (drop (i + n - l - 16) inp)"
    unfolding F(3) using F(1) by simp
  have tb2: "take l b2 = take l (drop (i + n - l) inp)"
    unfolding B2(3) using B2(1) by simp
  have h': "buf_len h' = int l" "final_used h' = 1" "final_buf h' = fb" "buf h' = b2"
    unfolding leftover(6) l_def by simp_all
  have k: "(n - 16 - l) + (16 + l) = n" "a + n - 16 - l = a + (n - 16 - l)"
    using ge a by simp_all
  have k': "i + (n - 16 - l) = i + n - l - 16" "i + n - l - 16 + 16 = i + n - l"
    using ge a by simp_all
  from last_bytes_of_staged_and_input [OF la k(1) k(2), of i inp]
  have X: "drop (a + n - 16 - l) (take a (buf h) @ take n (drop i inp))
          = take 16 (drop (i + n - l - 16) inp) @ take l (drop (i + n - l) inp)"
    unfolding k' .
  have "take 16 (final_buf h') @ take l (buf h')
               = drop (a + n - 16 - l) (take a (buf h) @ take n (drop i inp))"
    unfolding h' tf tb2 X ..
  then show ?thesis
    by (intro exI [of _ l] conjI h'(1) h'(2) ge(2) ge(3))
next
  case (even b fb b2)
  note B = memcpy_SomeD [OF even(3)]
  note B2 = memcpy_SomeD [OF even(4)]
  note F = memcpy_SomeD [OF even(5)]
  have ge: "32 \<le> a + n - 16" using even(1,2) by (rule mod16_even)
  have la: "length (take a (buf h)) = a" using B(2) a(2) by simp
  have tf: "take 16 fb = take 16 (drop (i + n - 32) inp)"
    unfolding F(3) using F(1) by simp
  have tb2: "take 16 b2 = take 16 (drop (i + n - 16) inp)"
    unfolding B2(3) using B2(1) by simp
  have h': "buf_len h' = int 16" "final_used h' = 1" "final_buf h' = fb" "buf h' = b2"
    unfolding even(6) by simp_all
  have k: "(n - 32) + (16 + 16) = n" "a + n - 16 - 16 = a + (n - 32)"
    using ge a by simp_all
  have k': "i + (n - 32) = i + n - 32" "i + n - 32 + 16 = i + n - 16"
    using ge a by simp_all
  from last_bytes_of_staged_and_input [OF la k(1) k(2), of i inp]
  have X: "drop (a + n - 16 - 16) (take a (buf h) @ take n (drop i inp))
          = take 16 (drop (i + n - 32) inp) @ take 16 (drop (i + n - 16) inp)"
    unfolding k' .
  have "take 16 (final_buf h') @ take 16 (buf h')
               = drop (a + n - 16 - 16) (take a (buf h) @ take n (drop i inp))"
    unfolding h' tf tb2 X ..
  moreover have "0 < (16::nat)" "(16::nat) \<le> 16" by simp_all
  ultimately show ?thesis
    by (intro exI [of _ 16] conjI h'(1) h'(2))
qed

lemma block_size_SomeD: "EVP_CIPHER_CTX_block_size c = Some bl \<Longrightarrow> bl = 16"
  by (auto simp: EVP_CIPHER_CTX_block_size_def EVP_CIPHER_block_size_def)

text \<open>
  Claim C8, as amended. After a successful call of \<open>EncryptUpdateCTS\<close> with a positive
  input length, on a helper that stages between 0 and 16 bytes, the helper stages more
  than 0 and at most 16 bytes. When the staged bytes and the input together are more
  than one block, \<open>final_used\<close> is 1 and \<open>final_buf\<close> and \<open>buf\<close> together hold the
  last bytes of the staged bytes followed by the input: the final two blocks. When they
  fit in one block, the input is only added to \<open>buf\<close>, and \<open>final_used\<close> and
  \<open>final_buf\<close> stay as they were.
\<close>

theorem EncryptUpdateCTS_helper_state:
  assumes ok: "EncryptUpdateCTS env h c out op inp (int i) (int n) = Some (1, h', c', out', outl)"
    and n: "0 < n" and a: "0 \<le> buf_len h" "buf_len h \<le> 16"
  shows "0 < buf_len h' \<and> buf_len h' \<le> 16
         \<and> (buf_len h + int n \<le> 16 \<longrightarrow>
               buf_len h' = buf_len h + int n \<and> final_used h' = final_used h
               \<and> final_buf h' = final_buf h
               \<and> take (nat (buf_len h')) (buf h')
                   = take (nat (buf_len h)) (buf h) @ take n (drop i inp))
         \<and> (16 < buf_len h + int n \<longrightarrow>
               final_used h' = 1
               \<and> take 16 (final_buf h') @ take (nat (buf_len h')) (buf h')
                   = drop (nat (buf_len h) + n - 16 - nat (buf_len h'))
                       (take (nat (buf_len h)) (buf h) @ take n (drop i inp)))"
proof -
  define k where "k = nat (buf_len h)"
  have k: "buf_len h = int k" "k \<le> 16" using a by (simp_all add: k_def)
  have nk: "nat (buf_len h) = k" by (simp only: k_def)
  from ok obtain bl where bl: "EVP_CIPHER_CTX_block_size c = Some bl"
    by (auto simp: EncryptUpdateCTS_def bind_eq_Some_conv)
  then have bl16: "EVP_CIPHER_CTX_block_size c = Some 16"
    using block_size_SomeD by blast
  have pos: "\<not> int n \<le> 0" using n by simp
  note ok' = ok [unfolded EncryptUpdateCTS_def bl16 bind.bind_lunit]
  show ?thesis
  proof (cases "k + n \<le> 16")
    case True
    then have le: "buf_len h + int n \<le> 16" using k by simp
    from ok' obtain b where b: "memcpy (buf h) (int k) inp (int i) (int n) = Some b"
      and h': "h' = h\<lparr>buf := b, buf_len := int (k + n)\<rparr>"
      using pos le by (auto simp: k(1) bind_eq_Some_conv split: if_splits)
    note B = memcpy_SomeD [OF b]
    have lk: "length (take k (buf h)) = k" using B(2) by simp
    have ln: "length (take n (drop i inp)) = n" using B(1) by simp
    have "take (k + n) b = take k (buf h) @ take n (drop i inp)"
      unfolding B(3) using lk ln by simp
    moreover have "nat (int k + int n) = k + n" by (simp only: nat_int_add)
    ultimately show ?thesis
      unfolding nk k(1) h' using n True by simp
  next
    case False
    then have gt: "16 < k + n" "\<not> buf_len h + int n \<le> 16" using k by simp_all
    have "\<exists>h0 c0 out0 op0 outl0. buf h0 = buf h \<and> buf_len h0 = buf_len h
            \<and> EncryptUpdateCTS_fill env h0 c0 out0 op0 outl0 inp (int i) (int n) 16
                = Some (1, h', c', out', outl)"
    proof (cases "final_used h = 0")
      case True
      with ok' pos gt(2) have
        "EncryptUpdateCTS_fill env h c out op 0 inp (int i) (int n) 16 = Some (1, h', c', out', outl)"
        by (auto split: if_splits)
      then show ?thesis
        by (intro exI [of _ h] exI conjI) simp_all
    next
      case False
      with ok' pos gt(2) obtain c1 out1 where
        "EncryptUpdateCTS_fill env (h\<lparr>final_used := 0\<rparr>) c1 out1 (op + 16) 16 inp (int i) (int n) 16
           = Some (1, h', c', out', outl)"
        by (auto simp: bind_eq_Some_conv split: if_splits)
      then show ?thesis
        by (intro exI [of _ "h\<lparr>final_used := 0\<rparr>"] exI conjI) simp_all
    qed
    then obtain h0 c0 out0 op0 outl0 where h0: "buf h0 = buf h" "buf_len h0 = int k"
      and f: "EncryptUpdateCTS_fill env h0 c0 out0 op0 outl0 inp (int i) (int n) 16
                = Some (1, h', c', out', outl)"
      using k(1) by auto
    from EncryptUpdateCTS_fill_state [OF f h0(2) k(2) gt(1)]
    obtain a' where a': "buf_len h' = int a'" "0 < a'" "a' \<le> 16" "final_used h' = 1"
      "take 16 (final_buf h') @ take a' (buf h')
         = drop (k + n - 16 - a') (take k (buf h0) @ take n (drop i inp))"
      by blast
    have "\<not> int k + int n \<le> 16" using gt(1) by simp
    then show ?thesis
      using a' unfolding h0(1) nk k(1) by simp
  qed
qed

theorem EncryptUpdateCTS_helper_state_witness:
  "EncryptUpdateCTS demo_platform new_H235CryptoHelper demo_ctx [] 0
       [1, 2, 3, 4, 5, 6, 7, 8, 9, 10, 11, 12, 13, 14, 15, 16, 17, 18, 19, 20] (int 0) (int 20)
     = Some (1, demo_two_blocks, demo_ctx, [], 0)
   \<and> final_used demo_two_blocks = 1 \<and> buf_len demo_two_blocks = 4
   \<and> take 16 (final_buf demo_two_blocks) @ take 4 (buf demo_two_blocks)
       = [1, 2, 3, 4, 5, 6, 7, 8, 9, 10, 11, 12, 13, 14, 15, 16, 17, 18, 19, 20]"
proof -
  have run: "EncryptUpdateCTS demo_platform new_H235CryptoHelper demo_ctx [] 0
       [1, 2, 3, 4, 5, 6, 7, 8, 9, 10, 11, 12, 13, 14, 15, 16, 17, 18, 19, 20] (int 0) (int 20)
     = Some (1, demo_two_blocks, demo_ctx, [], 0)"
    by code_simp
  have st: "0 \<le> buf_len new_H235CryptoHelper" "buf_len new_H235CryptoHelper \<le> 16"
    "buf_len new_H235CryptoHelper = 0" "buf_len demo_two_blocks = 4"
    by (simp_all add: new_H235CryptoHelper_def Reset_def demo_two_blocks_def)
  have n: "0 < (20::nat)" by simp
  show ?thesis
    using EncryptUpdateCTS_helper_state [OF run n st(1,2)] run
    by (simp add: st(3,4))
qed

theorem EncryptUpdateCTS_short_input_counterexample:
  "map_option fst
     (EncryptUpdateCTS demo_platform new_H235CryptoHelper demo_ctx [] 0 [1, 2, 3, 4, 5] 0 5)
     = Some 1
   \<and> map_option (final_used \<circ> fst \<circ> snd)
       (EncryptUpdateCTS demo_platform new_H235CryptoHelper demo_ctx [] 0 [1, 2, 3, 4, 5] 0 5)
     = Some 0"
  by code_simp

end
